theory Spec2Isabelle
  imports Main "HOL-Library.Word" "HOL-Library.Sublist"
begin

section \<open>C strings and the error variable\<close>

text \<open>
  A \<^verbatim>\<open>char*\<close> is a \<open>string option\<close>: \<open>None\<close> is the NULL pointer. The functions
  of the repository report a failure by returning NULL with the global \<^verbatim>\<open>oidc_errno\<close>
  set; the model returns \<open>Inl e\<close> for "NULL was returned and \<^verbatim>\<open>oidc_errno\<close> is \<open>e\<close>"
  and \<open>Inr v\<close> for the non-NULL result \<open>v\<close>.
\<close>

type_synonym cstr = "string option"

text \<open>
  Modelled from the spec: the closed set of error kinds of its section 7, and
  \<open>unsupported_params\<close>, which its section 4.1 names for the cipher.
\<close>

datatype error_kind =
    arg_null | arg_invalid | format_invalid | mac_mismatch | password_wrong
  | store_locked | account_not_found | account_exists | refresh_revoked
  | upstream_error | upstream_timeout | state_mismatch | jwk_parse | jwks_ambiguous
  | not_implemented | frame_too_large | unauthorized_peer | io_error | internal
  | unsupported_params

text \<open>
  The codes of \<^verbatim>\<open>utils/oidc_error.h\<close> that the three source files set themselves.
  \<^verbatim>\<open>oidc_setArgNullFuncError(__func__)\<close> records the name of the function,
  \<^verbatim>\<open>oidc_setInternalError(msg)\<close> the message. \<open>OIDC_EOTHER n\<close> stands for any code a
  callee outside these files left in \<^verbatim>\<open>oidc_errno\<close>, and \<open>Spec_error k\<close> for the code
  that a function modelled from the spec sets for a failure of the kind \<open>k\<close>: the spec
  names kinds, not codes.
\<close>

datatype oidc_error =
    OIDC_EARGNULLFUNC string
  | OIDC_ECRYPM
  | OIDC_EJWKURINO
  | OIDC_NOTIMPL
  | OIDC_EINTERNAL string
  | OIDC_EOTHER nat
  | Spec_error error_kind

text \<open>
  Modelled from the spec: the error kind a code of the source stands for, by its name.
  The "no JWK at the URI" code and the codes of absent callees have no kind of their own
  in the spec's list.
\<close>

fun error_kind_of :: "oidc_error \<Rightarrow> error_kind option" where
  "error_kind_of (OIDC_EARGNULLFUNC f) = Some arg_null"
| "error_kind_of OIDC_ECRYPM = Some format_invalid"
| "error_kind_of OIDC_NOTIMPL = Some not_implemented"
| "error_kind_of (OIDC_EINTERNAL m) = Some internal"
| "error_kind_of OIDC_EJWKURINO = None"
| "error_kind_of (OIDC_EOTHER n) = None"
| "error_kind_of (Spec_error k) = Some k"

section \<open>The C library functions the sources call\<close>

text \<open>\<^verbatim>\<open>str[0]\<close> of a C string: the terminating NUL when the string is empty.\<close>

definition str0 :: "string \<Rightarrow> char" where
  "str0 s = (case s of [] \<Rightarrow> CHR 0x00 | c # _ \<Rightarrow> c)"

text \<open>\<^verbatim>\<open>isdigit\<close>, \<^verbatim>\<open>isalnum\<close> and \<^verbatim>\<open>isspace\<close> of \<^verbatim>\<open>ctype.h\<close> in the C locale.\<close>

definition isdigit :: "char \<Rightarrow> bool" where
  "isdigit c = (48 \<le> (of_char c :: nat) \<and> (of_char c :: nat) \<le> 57)"

definition isupper :: "char \<Rightarrow> bool" where
  "isupper c = (65 \<le> (of_char c :: nat) \<and> (of_char c :: nat) \<le> 90)"

definition islower :: "char \<Rightarrow> bool" where
  "islower c = (97 \<le> (of_char c :: nat) \<and> (of_char c :: nat) \<le> 122)"

definition isalnum :: "char \<Rightarrow> bool" where
  "isalnum c = (isdigit c \<or> isupper c \<or> islower c)"

definition isspace :: "char \<Rightarrow> bool" where
  "isspace c = ((of_char c :: nat) = 32 \<or> (9 \<le> (of_char c :: nat) \<and> (of_char c :: nat) \<le> 13))"

text \<open>The value of a run of decimal digits.\<close>

definition decimal :: "string \<Rightarrow> int" where
  "decimal ds = foldl (\<lambda>acc c. 10 * acc + ((of_char c :: int) - 48)) 0 ds"

text \<open>
  \<^verbatim>\<open>strtol(s, NULL, 10)\<close>: white space, an optional sign, then the longest run of
  digits; the value is clamped to the range of \<^verbatim>\<open>long\<close> (64 bits).
\<close>

definition strtol10 :: "string \<Rightarrow> int" where
  "strtol10 s =
     (let s1 = dropWhile isspace s;
          neg = (case s1 of [] \<Rightarrow> False | c # _ \<Rightarrow> c = CHR ''-'');
          s2 = (case s1 of [] \<Rightarrow> [] | c # r \<Rightarrow> if c = CHR ''-'' \<or> c = CHR ''+'' then r else s1);
          v = decimal (takeWhile isdigit s2)
      in if neg then max (- v) (- (2 ^ 63)) else min v (2 ^ 63 - 1))"

text \<open>
  \<^verbatim>\<open>atoi(s)\<close> as glibc has it: \<^verbatim>\<open>(int) strtol(s, NULL, 10)\<close>, the conversion to
  \<^verbatim>\<open>int\<close> keeping the low 32 bits.
\<close>

definition atoi :: "string \<Rightarrow> int" where
  "atoi s = sint (word_of_int (strtol10 s) :: 32 word)"

text \<open>
  What a call ends in: it returns a value, or the process dies of a segmentation fault
  before the call returns.
\<close>

datatype 'a call = Returns 'a | Segfault

text \<open>
  \<^verbatim>\<open>strtok(s, delim)\<close> with its static save pointer made explicit: the third argument
  is the save pointer before the call (\<open>None\<close>: NULL, as in a process that has not
  called \<^verbatim>\<open>strtok\<close> before; \<open>Some t\<close>: it points at the text \<open>t\<close>), the second
  component of the result the text at the save pointer after the call. With \<open>s = None\<close>
  the scan continues at the save pointer, and reading through a NULL save pointer is a
  segmentation fault. Leading delimiters are skipped; \<open>None\<close> is returned when no token
  is left; otherwise the token ends at the next delimiter, which is overwritten, and the
  save pointer moves behind it.
\<close>

definition strtok :: "cstr \<Rightarrow> string \<Rightarrow> cstr \<Rightarrow> (cstr \<times> string) call" where
  "strtok s delim olds =
     (case (case s of None \<Rightarrow> olds | Some t \<Rightarrow> Some t) of
        None \<Rightarrow> Segfault
      | Some s0 \<Rightarrow>
          (let s1 = dropWhile (\<lambda>c. c \<in> set delim) s0
           in if s1 = [] then Returns (None, [])
              else Returns (Some (takeWhile (\<lambda>c. c \<notin> set delim) s1),
                            drop 1 (dropWhile (\<lambda>c. c \<notin> set delim) s1))))"

text \<open>
  \<^verbatim>\<open>list_at(list, index)\<close> of the list library: the node at \<open>index\<close> counted from the
  head, or from the tail for a negative index (\<open>-1\<close> is the last node); NULL when there
  is no such node.
\<close>

definition list_at :: "'a list \<Rightarrow> int \<Rightarrow> 'a option" where
  "list_at xs i =
     (if 0 \<le> i then (if nat i < length xs then Some (xs ! nat i) else None)
      else (if nat (- i - 1) < length xs then Some (rev xs ! nat (- i - 1)) else None))"

section \<open>Helpers of the repository that are not among the source files\<close>

text \<open>
  The tokens of a text: what repeated calls of \<^verbatim>\<open>strtok\<close> yield, the non-empty runs of
  characters between delimiters.
\<close>

function tokens :: "string \<Rightarrow> string \<Rightarrow> string list" where
  "tokens delim s =
     (case strtok (Some s) delim None of
        Returns (Some t, rest) \<Rightarrow> t # tokens delim rest
      | _ \<Rightarrow> [])"
  by pat_completeness auto
termination
proof (relation "measure (\<lambda>(delim, s). length s)")
  show "wf (measure (\<lambda>(delim, s). length s))" by simp
next
  fix delim s rest t :: string and x1 :: "cstr \<times> string" and x :: cstr
  assume a: "strtok (Some s) delim None = Returns x1" "(x, rest) = x1" "x = Some t"
  then have ne: "dropWhile (\<lambda>c. c \<in> set delim) s \<noteq> []"
    and r: "rest = drop 1 (dropWhile (\<lambda>c. c \<notin> set delim) (dropWhile (\<lambda>c. c \<in> set delim) s))"
    by (auto simp: strtok_def Let_def split: if_splits)
  let ?s1 = "dropWhile (\<lambda>c. c \<in> set delim) s"
  have "hd ?s1 \<notin> set delim" using ne by (metis hd_dropWhile)
  then have "dropWhile (\<lambda>c. c \<notin> set delim) ?s1 = dropWhile (\<lambda>c. c \<notin> set delim) (tl ?s1)"
    using ne by (cases ?s1) auto
  then have "rest = drop 1 (dropWhile (\<lambda>c. c \<notin> set delim) (tl ?s1))"
    using r by simp
  then have "length rest \<le> length (dropWhile (\<lambda>c. c \<notin> set delim) (tl ?s1))"
    by simp
  also have "\<dots> \<le> length (tl ?s1)" by (rule length_dropWhile_le)
  also have "\<dots> < length ?s1" using ne by (cases ?s1) auto
  also have "\<dots> \<le> length s" by (rule length_dropWhile_le)
  finally show "((delim, rest), (delim, s)) \<in> measure (\<lambda>(delim, s). length s)" by simp
qed

declare tokens.simps [simp del]

text \<open>
  Modelled from the spec: \<^verbatim>\<open>delimitedStringToList\<close> (\<^verbatim>\<open>utils/listUtils.c\<close> is not
  among the source files). The spec says that the file content is split on newline; the
  lines are the tokens of the content, so an empty piece is no line, and the newline that
  ends the spec's two-line format adds none. NULL gives NULL.
\<close>

definition delimitedStringToList :: "cstr \<Rightarrow> char \<Rightarrow> string list option" where
  "delimitedStringToList str delimiter =
     (case str of None \<Rightarrow> None | Some s \<Rightarrow> Some (tokens [delimiter] s))"

text \<open>
  Modelled from the spec: the start of a version line (\<^verbatim>\<open>utils/versionUtils.c\<close> is not
  among the source files). The spec gives the version line the form
  \<^verbatim>\<open>@oidc-agent <version>\<close>.
\<close>

definition VERSION_LINE_START :: string where
  "VERSION_LINE_START = ''@oidc-agent ''"

text \<open>
  Modelled from the spec: \<^verbatim>\<open>simpleVersionToVersionLine\<close> (\<^verbatim>\<open>utils/versionUtils.c\<close> is
  not among the source files) writes the version line of a version.
\<close>

definition simpleVersionToVersionLine :: "string \<Rightarrow> string" where
  "simpleVersionToVersionLine version = VERSION_LINE_START @ version"

text \<open>
  Modelled from the spec: \<^verbatim>\<open>versionLineToSimpleVersion\<close> (\<^verbatim>\<open>utils/versionUtils.c\<close> is
  not among the source files) reads the version of a version line; NULL for NULL and for
  a line that is no version line.
\<close>

definition versionLineToSimpleVersion :: "cstr \<Rightarrow> cstr" where
  "versionLineToSimpleVersion version_line =
     (case version_line of
        None \<Rightarrow> None
      | Some l \<Rightarrow>
          if prefix VERSION_LINE_START l then Some (drop (length VERSION_LINE_START) l)
          else None)"

text \<open>
  Modelled from the spec: the dotted numeric components of a version. A component counts
  with the number its leading digits spell (0 when it has none); a missing version (NULL)
  has no component.
\<close>

fun split_on :: "char \<Rightarrow> string \<Rightarrow> string list" where
  "split_on d [] = [[]]"
| "split_on d (c # cs) =
     (if c = d then [] # split_on d cs
      else (case split_on d cs of [] \<Rightarrow> [[c]] | x # xs \<Rightarrow> (c # x) # xs))"

definition version_components :: "cstr \<Rightarrow> int list" where
  "version_components version =
     (case version of
        None \<Rightarrow> []
      | Some v \<Rightarrow> map (\<lambda>comp. decimal (takeWhile isdigit comp)) (split_on CHR ''.'' v))"

text \<open>
  Modelled from the spec: the lexicographic comparison of the components, where a
  component that one version lacks counts as zero.
\<close>

fun version_ge :: "int list \<Rightarrow> int list \<Rightarrow> bool" where
  "version_ge [] [] = True"
| "version_ge (x # xs) [] = True"
| "version_ge [] (y # ys) = (if 0 < y then False else version_ge [] ys)"
| "version_ge (x # xs) (y # ys) =
     (if y < x then True else if x < y then False else version_ge xs ys)"

text \<open>
  Modelled from the spec: \<^verbatim>\<open>versionAtLeast\<close> (\<^verbatim>\<open>utils/versionUtils.c\<close> is not among the
  source files) compares two versions in this way; with no component at all, a missing
  version is treated as \<^verbatim>\<open>0.0.0\<close>.
\<close>

definition versionAtLeast :: "cstr \<Rightarrow> string \<Rightarrow> bool" where
  "versionAtLeast version minVersion =
     version_ge (version_components version) (version_components (Some minVersion))"

text \<open>
  Modelled from the spec: \<^verbatim>\<open>MIN_BASE64_VERSION\<close> (\<^verbatim>\<open>defines/settings.h\<close> is not among
  the source files). The spec and the comments of \<^verbatim>\<open>cryptUtils.c\<close> both give 2.1.0 as
  the first version of the base64 format.
\<close>

definition MIN_BASE64_VERSION :: string where
  "MIN_BASE64_VERSION = ''2.1.0''"

text \<open>
  The legacy shape as the spec words it, \<^verbatim>\<open><len>:<hex_salt>:<hex_nonce>:<hex_cipher>\<close>:
  split at its colons the text has exactly the four fields length, salt, nonce and
  cipher; the length is a decimal number other than zero, and none of the other three
  fields is empty.
\<close>

definition legacy_shape :: "string \<Rightarrow> bool" where
  "legacy_shape s =
     (case split_on CHR '':'' s of
        [len, salt, nonce, cipher] \<Rightarrow>
          len \<noteq> [] \<and> list_all isdigit len \<and> decimal len \<noteq> 0 \<and>
          salt \<noteq> [] \<and> nonce \<noteq> [] \<and> cipher \<noteq> []
      | _ \<Rightarrow> False)"

text \<open>
  \<^verbatim>\<open>oidc_sprintf\<close> (\<^verbatim>\<open>utils/stringUtils.c\<close> is not among the source files) formats as
  \<^verbatim>\<open>printf\<close> does, here with the format \<^verbatim>\<open>"%s\n%s"\<close>; glibc prints a NULL argument of
  \<^verbatim>\<open>%s\<close> as \<^verbatim>\<open>(null)\<close>.
\<close>

definition printf_s :: "cstr \<Rightarrow> string" where
  "printf_s a = (case a of None \<Rightarrow> ''(null)'' | Some s \<Rightarrow> s)"

definition oidc_sprintf_s_nl_s :: "cstr \<Rightarrow> cstr \<Rightarrow> string" where
  "oidc_sprintf_s_nl_s a b = printf_s a @ [CHR 0x0A] @ printf_s b"

text \<open>
  \<^verbatim>\<open>oidc_strcopy\<close> (\<^verbatim>\<open>utils/stringUtils.c\<close> is not among the source files): a copy of
  the string, NULL for NULL.
\<close>

definition oidc_strcopy :: "cstr \<Rightarrow> cstr" where
  "oidc_strcopy s = s"

section \<open>utils/crypt/cryptUtils.c\<close>

text \<open>
  What \<^verbatim>\<open>cryptUtils.c\<close> takes from outside the three source files is a parameter of
  the model: the macro \<^verbatim>\<open>VERSION\<close> (\<^verbatim>\<open>defines/version.h\<close>), the cipher of
  \<^verbatim>\<open>crypt.h\<close> and \<^verbatim>\<open>hexCrypt.h\<close>, \<^verbatim>\<open>strToInt\<close> (which returns an \<^verbatim>\<open>int\<close>), and
  \<^verbatim>\<open>strtok\<close>'s save pointer when \<^verbatim>\<open>decryptHexFileContent\<close> is entered. The save
  pointer is read only when the cipher is NULL: it is NULL in a process that has not
  called \<^verbatim>\<open>strtok\<close> before, and otherwise points at what an earlier call left (freed
  memory as a rule, whose content is then whatever text is found there). The cipher
  draws its nonce and salt at random, so \<open>crypt_encrypt\<close> is the function one run of the
  program computes.
\<close>

record crypt_deps =
  VERSION :: string
  crypt_encrypt :: "cstr \<Rightarrow> cstr \<Rightarrow> oidc_error + string"
  crypt_decrypt :: "cstr \<Rightarrow> cstr \<Rightarrow> oidc_error + string"
  crypt_decryptFromList :: "string list \<Rightarrow> cstr \<Rightarrow> oidc_error + string"
  crypt_decrypt_hex :: "cstr \<Rightarrow> 64 word \<Rightarrow> cstr \<Rightarrow> cstr \<Rightarrow> cstr \<Rightarrow> oidc_error + string"
  strToInt :: "cstr \<Rightarrow> 32 word"
  strtok_olds :: cstr

definition decryptHexFileContent ::
  "crypt_deps \<Rightarrow> cstr \<Rightarrow> cstr \<Rightarrow> (oidc_error + string) call" where
  "decryptHexFileContent d cipher password =
     (let fileText = oidc_strcopy cipher in
      case strtok fileText '':'' (strtok_olds d) of
        Segfault \<Rightarrow> Segfault
      | Returns (tok, olds1) \<Rightarrow>
     (let cipher_len = (scast (strToInt d tok) :: 64 word) in
      case strtok None '':'' (Some olds1) of
        Segfault \<Rightarrow> Segfault
      | Returns (salt_encoded, olds2) \<Rightarrow>
     (case strtok None '':'' (Some olds2) of
        Segfault \<Rightarrow> Segfault
      | Returns (nonce_encoded, olds3) \<Rightarrow>
     (case strtok None '':'' (Some olds3) of
        Segfault \<Rightarrow> Segfault
      | Returns (cipher_encoded, olds4) \<Rightarrow>
          if cipher_len = 0 \<or> salt_encoded = None \<or> nonce_encoded = None \<or>
             cipher_encoded = None
          then Returns (Inl OIDC_ECRYPM)
          else Returns (crypt_decrypt_hex d cipher_encoded cipher_len password
                          nonce_encoded salt_encoded)))))"

definition decryptLinesList ::
  "crypt_deps \<Rightarrow> string list option \<Rightarrow> cstr \<Rightarrow> (oidc_error + string) call" where
  "decryptLinesList d lines password =
     (case lines of
        None \<Rightarrow> Returns (Inl (OIDC_EARGNULLFUNC ''decryptLinesList''))
      | Some ls \<Rightarrow>
          (let cipher = list_at ls 0;
               node = list_at ls (- 1);
               version_line = (if 1 < length ls then node else None);
               version = versionLineToSimpleVersion version_line
           in if versionAtLeast version MIN_BASE64_VERSION
              then Returns (crypt_decryptFromList d ls password)
              else decryptHexFileContent d cipher password))"

definition decryptFileContent ::
  "crypt_deps \<Rightarrow> cstr \<Rightarrow> cstr \<Rightarrow> (oidc_error + string) call" where
  "decryptFileContent d fileContent password =
     (let lines = delimitedStringToList fileContent (CHR 0x0A)
      in decryptLinesList d lines password)"

definition decryptText ::
  "crypt_deps \<Rightarrow> cstr \<Rightarrow> cstr \<Rightarrow> cstr \<Rightarrow> (oidc_error + string) call" where
  "decryptText d cipher password version =
     (if cipher = None \<or> password = None
      then Returns (Inl (OIDC_EARGNULLFUNC ''decryptText''))
      else if versionAtLeast version MIN_BASE64_VERSION
           then Returns (crypt_decrypt d cipher password)
           else decryptHexFileContent d cipher password)"

definition encryptText :: "crypt_deps \<Rightarrow> cstr \<Rightarrow> cstr \<Rightarrow> oidc_error + string" where
  "encryptText d text password = crypt_encrypt d text password"

text \<open>
  \<^verbatim>\<open>encryptWithVersionLine\<close> returns what \<^verbatim>\<open>oidc_sprintf\<close> built, also when
  \<^verbatim>\<open>encryptText\<close> returned NULL.
\<close>

definition encryptWithVersionLine :: "crypt_deps \<Rightarrow> cstr \<Rightarrow> cstr \<Rightarrow> string" where
  "encryptWithVersionLine d text password =
     (let crypt = (case encryptText d text password of Inl e \<Rightarrow> None | Inr c \<Rightarrow> Some c);
          version_line = simpleVersionToVersionLine (VERSION d);
          ret = oidc_sprintf_s_nl_s crypt (Some version_line)
      in ret)"

text \<open>
  \<^verbatim>\<open>randomFillBase64UrlSafe(str, len)\<close> (not among the source files) writes \<open>len\<close>
  random characters into the buffer; the characters one call draws are a parameter, a
  function from the position to the character.
\<close>

definition randomFillBase64UrlSafe :: "(nat \<Rightarrow> char) \<Rightarrow> nat \<Rightarrow> string" where
  "randomFillBase64UrlSafe src len = map src [0..<len]"

text \<open>
  Modelled from the spec: \<^verbatim>\<open>oidc_memshiftr(str, len)\<close> (\<^verbatim>\<open>utils/memory.c\<close> is not
  among the source files). The loop of \<^verbatim>\<open>randomString\<close> looks for a rotation of the
  buffer with an alphanumeric first character: the first \<open>len\<close> bytes move one place
  to the right and the last of them comes first.
\<close>

definition oidc_memshiftr :: "string \<Rightarrow> nat \<Rightarrow> string" where
  "oidc_memshiftr str len =
     (let b = take len str
      in if b = [] then str else last b # butlast b @ drop len str)"

text \<open>
  The \<^verbatim>\<open>for\<close> loop of \<^verbatim>\<open>randomString\<close>: it returns the final \<open>shifts\<close> and the
  buffer.
\<close>

function shift_loop :: "nat \<Rightarrow> nat \<Rightarrow> string \<Rightarrow> nat \<times> string" where
  "shift_loop len shifts str =
     (if shifts < len \<and> \<not> isalnum (str0 str)
      then shift_loop len (Suc shifts) (oidc_memshiftr str len)
      else (shifts, str))"
  by pat_completeness auto
termination
  by (relation "measure (\<lambda>(len, shifts, str). len - shifts)") auto

declare shift_loop.simps [simp del]

text \<open>The buffer after \<open>s\<close> passes through the body of the loop.\<close>

definition shifted :: "nat \<Rightarrow> nat \<Rightarrow> string \<Rightarrow> string" where
  "shifted len s str = ((\<lambda>b. oidc_memshiftr b len) ^^ s) str"

text \<open>
  \<^verbatim>\<open>randomString(len)\<close> calls itself until a buffer passes, which need not happen:
  \<open>None\<close> is "never returns". \<open>rnd n\<close> are the characters the \<open>n\<close>-th call of
  \<^verbatim>\<open>randomFillBase64UrlSafe\<close> draws, \<open>call\<close> counts the calls made so far.
\<close>

partial_function (option) randomString :: "(nat \<Rightarrow> nat \<Rightarrow> char) \<Rightarrow> nat \<Rightarrow> nat \<Rightarrow> string option" where
  "randomString rnd call len =
     (let str = randomFillBase64UrlSafe (rnd call) len;
          r = shift_loop len 0 str
      in if len \<le> fst r then randomString rnd (Suc call) len else Some (snd r))"

declare randomString.simps [code]

section \<open>The cipher of utils/crypt/crypt.c, from the spec\<close>

text \<open>
  The cryptographic library under the cipher is a parameter: the bytes drawn at random
  for the salt and for the nonce (by position), the key derivation parameters the
  program records, the memory-hard key derivation (password, salt and parameters to the
  key; \<open>None\<close> when it does not support the parameters), the authenticated cipher (key,
  nonce and text to ciphertext and tag; opening gives \<open>None\<close> when the tag does not
  match), and the base64url coding. A byte is a \<^verbatim>\<open>char\<close>.
\<close>

type_synonym bytes = "char list"

record crypto_lib =
  salt_bytes :: "nat \<Rightarrow> char"
  nonce_bytes :: "nat \<Rightarrow> char"
  kdf_params :: bytes
  kdf :: "string \<Rightarrow> bytes \<Rightarrow> bytes \<Rightarrow> bytes option"
  aead_seal :: "bytes \<Rightarrow> bytes \<Rightarrow> string \<Rightarrow> bytes"
  aead_open :: "bytes \<Rightarrow> bytes \<Rightarrow> bytes \<Rightarrow> string option"
  base64url :: "bytes \<Rightarrow> string"
  base64url_decode :: "string \<Rightarrow> bytes option"

text \<open>
  Modelled from the spec: \<^verbatim>\<open>random_bytes(n)\<close>, and the sizes of the salt (16 bytes) and
  of the nonce (24 bytes).
\<close>

definition random_bytes :: "(nat \<Rightarrow> char) \<Rightarrow> nat \<Rightarrow> bytes" where
  "random_bytes src n = map src [0..<n]"

definition SALT_LEN :: nat where
  "SALT_LEN = 16"

definition NONCE_LEN :: nat where
  "NONCE_LEN = 24"

text \<open>
  Modelled from the spec: \<^verbatim>\<open>crypt_encrypt\<close> (\<^verbatim>\<open>utils/crypt/crypt.c\<close> is not among the
  source files), the spec's \<^verbatim>\<open>encrypt(plaintext, password)\<close>. It draws a random salt and
  a random nonce, derives the key from the password with the salt and the recorded
  parameters, and seals the text; the envelope is salt, nonce, parameters, ciphertext
  and tag, concatenated in this order and then base64url-encoded.
\<close>

definition crypt_encrypt_spec :: "crypto_lib \<Rightarrow> cstr \<Rightarrow> cstr \<Rightarrow> oidc_error + string" where
  "crypt_encrypt_spec lib text password =
     (case (text, password) of
        (Some t, Some p) \<Rightarrow>
          (let salt = random_bytes (salt_bytes lib) SALT_LEN;
               nonce = random_bytes (nonce_bytes lib) NONCE_LEN;
               params = kdf_params lib
           in case kdf lib p salt params of
                None \<Rightarrow> Inl (Spec_error unsupported_params)
              | Some key \<Rightarrow>
                  Inr (base64url lib (salt @ nonce @ params @ aead_seal lib key nonce t)))
      | _ \<Rightarrow> Inl (Spec_error arg_null))"

text \<open>
  Modelled from the spec: \<^verbatim>\<open>crypt_decryptFromList\<close> (\<^verbatim>\<open>utils/crypt/crypt.c\<close> is not
  among the source files), the spec's \<^verbatim>\<open>decrypt(envelope, password)\<close> on the lines of a
  file in the modern format, whose line 1 is the envelope. The envelope is decoded and
  cut into salt, nonce, parameters, and ciphertext with tag; the key is derived from the
  password with the salt and the parameters found, and the text is opened. The failures
  are the spec's: \<open>format_invalid\<close>, \<open>unsupported_params\<close> and \<open>mac_mismatch\<close>.
\<close>

definition crypt_decryptFromList_spec ::
  "crypto_lib \<Rightarrow> string list \<Rightarrow> cstr \<Rightarrow> oidc_error + string" where
  "crypt_decryptFromList_spec lib lines password =
     (case (lines, password) of
        (envelope # rest, Some p) \<Rightarrow>
          (case base64url_decode lib envelope of
             None \<Rightarrow> Inl (Spec_error format_invalid)
           | Some bs \<Rightarrow>
               (let n = SALT_LEN + NONCE_LEN + length (kdf_params lib) in
                if length bs < n then Inl (Spec_error format_invalid)
                else
                  (let salt = take SALT_LEN bs;
                       nonce = take NONCE_LEN (drop SALT_LEN bs);
                       params = take (length (kdf_params lib)) (drop (SALT_LEN + NONCE_LEN) bs);
                       sealed = drop n bs
                   in case kdf lib p salt params of
                        None \<Rightarrow> Inl (Spec_error unsupported_params)
                      | Some key \<Rightarrow>
                          (case aead_open lib key nonce sealed of
                             None \<Rightarrow> Inl (Spec_error mac_mismatch)
                           | Some text \<Rightarrow> Inr text))))
      | ([], Some p) \<Rightarrow> Inl (Spec_error format_invalid)
      | (ls, None) \<Rightarrow> Inl (Spec_error arg_null))"

section \<open>oidc-agent/oidcd/jose/oidc_jwk.c\<close>

text \<open>A JSON value, as the JSON library holds it.\<close>

datatype json =
    JNull
  | JBool bool
  | JNumber int
  | JString string
  | JArray "json list"
  | JObject "(string \<times> json) list"

text \<open>
  Modelled from the spec: \<^verbatim>\<open>jsonAddStringValue\<close> (\<^verbatim>\<open>utils/json.c\<close> is not among the
  source files) returns the JSON object with the string member added. \<^verbatim>\<open>export_jwk\<close>
  frees its argument and goes on with the result, so the result is a new value. NULL
  when an argument is NULL or the value is no object.
\<close>

definition jsonAddStringValue :: "json option \<Rightarrow> cstr \<Rightarrow> cstr \<Rightarrow> json option" where
  "jsonAddStringValue cjson key val =
     (case (cjson, key, val) of
        (Some (JObject members), Some k, Some v) \<Rightarrow> Some (JObject (members @ [(k, JString v)]))
      | _ \<Rightarrow> None)"

text \<open>
  Modelled from the spec: \<^verbatim>\<open>listValid\<close> (\<^verbatim>\<open>utils/listUtils.h\<close> is not among the
  source files). A \<^verbatim>\<open>keys\<close> array that cannot be read or is empty is not valid: a valid
  list is not NULL and holds an element. \<^verbatim>\<open>import_jwk_fromURI\<close> reads the length of a
  list that passed.
\<close>

definition listValid :: "'a list option \<Rightarrow> bool" where
  "listValid l = (case l of None \<Rightarrow> False | Some xs \<Rightarrow> 0 < length xs)"

text \<open>
  What \<^verbatim>\<open>oidc_jwk.c\<close> takes from outside the source files is a parameter of the
  model: the HTTPS fetch (\<open>Inl e\<close>: NULL with the code it set), the JSON reader and
  printer of \<^verbatim>\<open>utils/json.h\<close>, and the cjose library, whose key type is \<open>'jwk\<close> and
  whose failures carry the message of \<^verbatim>\<open>cjose_err\<close>.
\<close>

record 'jwk jwk_deps =
  httpsGET :: "cstr \<Rightarrow> cstr \<Rightarrow> cstr \<Rightarrow> oidc_error + string"
  getJSONValueFromString :: "cstr \<Rightarrow> string \<Rightarrow> cstr"
  JSONArrayStringToList :: "cstr \<Rightarrow> string list option"
  cjose_jwk_import :: "string \<Rightarrow> nat \<Rightarrow> string + 'jwk"
  cjose_jwk_to_json :: "'jwk \<Rightarrow> bool \<Rightarrow> string + string"
  stringToJson :: "cstr \<Rightarrow> json option"
  jsonToStringUnformatted :: "json option \<Rightarrow> oidc_error + string"

definition JWK_USE_SIG :: string where
  "JWK_USE_SIG = ''sig''"

definition JWK_USE_ENC :: string where
  "JWK_USE_ENC = ''enc''"

definition export_jwk :: "'jwk jwk_deps \<Rightarrow> 'jwk option \<Rightarrow> int \<Rightarrow> cstr \<Rightarrow> oidc_error + string" where
  "export_jwk d jwk withPrivate use =
     (case jwk of
        None \<Rightarrow> Inl (OIDC_EARGNULLFUNC ''export_jwk'')
      | Some k \<Rightarrow>
          (case cjose_jwk_to_json d k (withPrivate \<noteq> 0) of
             Inl message \<Rightarrow> Inl (OIDC_EINTERNAL (''JWK export error: '' @ message))
           | Inr tmp \<Rightarrow>
               (let json = stringToJson d (Some tmp);
                    jsonWithUse = jsonAddStringValue json (Some ''use'') use;
                    jwk_str = jsonToStringUnformatted d jsonWithUse
                in jwk_str)))"

definition export_jwk_sig :: "'jwk jwk_deps \<Rightarrow> 'jwk option \<Rightarrow> int \<Rightarrow> oidc_error + string" where
  "export_jwk_sig d jwk withPrivate = export_jwk d jwk withPrivate (Some JWK_USE_SIG)"

definition export_jwk_enc :: "'jwk jwk_deps \<Rightarrow> 'jwk option \<Rightarrow> int \<Rightarrow> oidc_error + string" where
  "export_jwk_enc d jwk withPrivate = export_jwk d jwk withPrivate (Some JWK_USE_ENC)"

definition import_jwk :: "'jwk jwk_deps \<Rightarrow> cstr \<Rightarrow> oidc_error + 'jwk" where
  "import_jwk d key =
     (case key of
        None \<Rightarrow> Inl (OIDC_EARGNULLFUNC ''import_jwk'')
      | Some k \<Rightarrow>
          (case cjose_jwk_import d k (length k) of
             Inl message \<Rightarrow> Inl (OIDC_EINTERNAL (''JWK import error: '' @ message))
           | Inr jwk \<Rightarrow> Inr jwk))"

definition import_jwk_fromURI :: "'jwk jwk_deps \<Rightarrow> cstr \<Rightarrow> cstr \<Rightarrow> oidc_error + 'jwk" where
  "import_jwk_fromURI d jwk_uri cert_path =
     (if jwk_uri = None \<or> cert_path = None
      then Inl (OIDC_EARGNULLFUNC ''import_jwk_fromURI'')
      else
        (case httpsGET d jwk_uri None cert_path of
           Inl e \<Rightarrow> Inl e
         | Inr res \<Rightarrow>
             (case getJSONValueFromString d (Some res) ''keys'' of
                None \<Rightarrow> Inl OIDC_EJWKURINO
              | Some keys_arr \<Rightarrow>
                  (let keys = JSONArrayStringToList d (Some keys_arr)
                   in if \<not> listValid keys then Inl OIDC_EJWKURINO
                      else
                        (case keys of
                           None \<Rightarrow> Inl OIDC_EJWKURINO
                         | Some ks \<Rightarrow>
                             if length ks = 1 then import_jwk d (list_at ks 0)
                             else Inl OIDC_NOTIMPL)))))"

section \<open>oidc-add/oidc-add\_options.h\<close>

text \<open>
  \<^verbatim>\<open>struct lifetimeArg\<close> (\<^verbatim>\<open>add_handler.h\<close> is not among the source files) and
  \<^verbatim>\<open>struct arguments\<close>. \<open>args0\<close> is \<^verbatim>\<open>args[0]\<close>, the only element of the array; the
  fields \<^verbatim>\<open>remove\<close>, \<^verbatim>\<open>removeAll\<close>, \<^verbatim>\<open>list\<close> and \<^verbatim>\<open>lifetime\<close> carry the suffix
  \<open>_opt\<close>, their names being taken.
\<close>

record lifetimeArg =
  lifetime :: int
  argProvided :: int

record arguments =
  args0 :: cstr
  remove_opt :: int
  removeAll_opt :: int
  debug :: int
  verbose :: int
  list_opt :: int
  print :: int
  lifetime_opt :: lifetimeArg
  lock :: int
  unlock :: int
  seccomp :: int

text \<open>The fields of \<^verbatim>\<open>struct argp_state\<close> that \<^verbatim>\<open>parse_opt\<close> reads.\<close>

record argp_state =
  input :: arguments
  arg_num :: nat

text \<open>
  What a call of \<^verbatim>\<open>parse_opt\<close> or of \<^verbatim>\<open>argp_parse\<close> ends in: it returns an
  \<^verbatim>\<open>error_t\<close> and leaves the state, or the process ends in \<^verbatim>\<open>argp_usage\<close> (usage
  message, exit status 64), in \<^verbatim>\<open>argp_error\<close> (an error message, exit status 64) or in
  \<^verbatim>\<open>argp_state_help\<close> with \<^verbatim>\<open>ARGP_HELP_STD_HELP\<close> (help text, exit status 0), as all
  three do unless the caller asked for \<^verbatim>\<open>ARGP_NO_EXIT\<close>, or it reads through a NULL
  \<^verbatim>\<open>arg\<close>.
\<close>

datatype outcome =
    Returned int argp_state
  | Usage_exit
  | Error_exit
  | Help_exit
  | Null_deref

definition OPT_SECCOMP :: int where
  "OPT_SECCOMP = 1"

definition ARGP_KEY_ARG :: int where
  "ARGP_KEY_ARG = 0"

definition ARGP_KEY_END :: int where
  "ARGP_KEY_END = 0x1000001"

definition ARGP_ERR_UNKNOWN :: int where
  "ARGP_ERR_UNKNOWN = 7"

definition key_of :: "char \<Rightarrow> int" where
  "key_of c = int (of_char c)"

definition parse_opt :: "int \<Rightarrow> cstr \<Rightarrow> argp_state \<Rightarrow> outcome" where
  "parse_opt key arg state =
     (let arguments = input state in
      if key = key_of CHR ''r'' then Returned 0 (state\<lparr>input := arguments\<lparr>remove_opt := 1\<rparr>\<rparr>)
      else if key = key_of CHR ''R'' then Returned 0 (state\<lparr>input := arguments\<lparr>removeAll_opt := 1\<rparr>\<rparr>)
      else if key = key_of CHR ''g'' then Returned 0 (state\<lparr>input := arguments\<lparr>debug := 1\<rparr>\<rparr>)
      else if key = key_of CHR ''v'' then Returned 0 (state\<lparr>input := arguments\<lparr>verbose := 1\<rparr>\<rparr>)
      else if key = key_of CHR ''p'' then Returned 0 (state\<lparr>input := arguments\<lparr>print := 1\<rparr>\<rparr>)
      else if key = key_of CHR ''l'' then Returned 0 (state\<lparr>input := arguments\<lparr>list_opt := 1\<rparr>\<rparr>)
      else if key = key_of CHR ''x'' then Returned 0 (state\<lparr>input := arguments\<lparr>lock := 1\<rparr>\<rparr>)
      else if key = key_of CHR ''X'' then Returned 0 (state\<lparr>input := arguments\<lparr>unlock := 1\<rparr>\<rparr>)
      else if key = key_of CHR ''t'' then
        (case arg of
           None \<Rightarrow> Null_deref
         | Some a \<Rightarrow>
             if \<not> isdigit (str0 a) then Returned ARGP_ERR_UNKNOWN state
             else Returned 0
                    (state\<lparr>input := arguments\<lparr>lifetime_opt :=
                       \<lparr>lifetime = atoi a, argProvided = 1\<rparr>\<rparr>\<rparr>))
      else if key = OPT_SECCOMP then Returned 0 (state\<lparr>input := arguments\<lparr>seccomp := 1\<rparr>\<rparr>)
      else if key = key_of CHR ''h'' then Help_exit
      else if key = ARGP_KEY_ARG then
        (if 1 \<le> arg_num state then Usage_exit
         else Returned 0 (state\<lparr>input := arguments\<lparr>args0 := arg\<rparr>\<rparr>))
      else if key = ARGP_KEY_END then
        (if list_opt arguments \<noteq> 0 \<or> lock arguments \<noteq> 0 \<or> unlock arguments \<noteq> 0 \<or>
            removeAll_opt arguments \<noteq> 0
         then Returned 0 state
         else if arg_num state < 1 then Usage_exit
         else Returned 0 state)
      else Returned ARGP_ERR_UNKNOWN state)"

text \<open>
  How \<^verbatim>\<open>argp_parse\<close> of the C library drives the parser, as far as \<^verbatim>\<open>parse_opt\<close> can
  tell: it calls the parser with the key and the argument of every option and every
  positional argument of the command line, in the order the list gives, and with
  \<^verbatim>\<open>ARGP_KEY_END\<close> at the end. A call that returns 0 lets it go on, and a positional
  argument so consumed is counted in \<^verbatim>\<open>arg_num\<close>. When the parser answers
  \<^verbatim>\<open>ARGP_ERR_UNKNOWN\<close> to an option of its own table, \<^verbatim>\<open>argp_parse\<close> reports
  \<^verbatim>\<open>(PROGRAM ERROR) Option should have been recognized!?\<close> through \<^verbatim>\<open>argp_error\<close>, which
  ends the process; any other return value ends the parse with that error.
\<close>

fun argp_parse :: "(int \<times> cstr) list \<Rightarrow> argp_state \<Rightarrow> outcome" where
  "argp_parse [] state = parse_opt ARGP_KEY_END None state"
| "argp_parse ((key, arg) # evs) state =
     (case parse_opt key arg state of
        Returned e state' \<Rightarrow>
          if e = 0
          then argp_parse evs
                 (if key = ARGP_KEY_ARG then state'\<lparr>arg_num := Suc (arg_num state')\<rparr>
                  else state')
          else if e = ARGP_ERR_UNKNOWN then Error_exit
          else Returned e state'
      | out \<Rightarrow> out)"

text \<open>
  The table \<^verbatim>\<open>options\<close>: the long name, the key and the argument name of every option,
  in the order of the source (the group headers and the hidden \<^verbatim>\<open>-h\<close> have no long name
  and are left out).
\<close>

definition options :: "(string \<times> int \<times> cstr) list" where
  "options =
     [(''remove'', key_of CHR ''r'', None),
      (''remove-all'', key_of CHR ''R'', None),
      (''list'', key_of CHR ''l'', None),
      (''print'', key_of CHR ''p'', None),
      (''lifetime'', key_of CHR ''t'', Some ''LIFETIME''),
      (''lock'', key_of CHR ''x'', None),
      (''unlock'', key_of CHR ''X'', None),
      (''seccomp'', OPT_SECCOMP, None),
      (''debug'', key_of CHR ''g'', None),
      (''verbose'', key_of CHR ''v'', None)]"

definition option_key :: "string \<Rightarrow> int option" where
  "option_key name = map_option fst (map_of options name)"

text \<open>
  The positional arguments among the events, and the keys of the four options that need
  no account: \<^verbatim>\<open>--list\<close>, \<^verbatim>\<open>--lock\<close>, \<^verbatim>\<open>--unlock\<close> and \<^verbatim>\<open>--remove-all\<close>.
\<close>

definition positional :: "(int \<times> cstr) list \<Rightarrow> (int \<times> cstr) list" where
  "positional evs = filter (\<lambda>e. fst e = ARGP_KEY_ARG) evs"

definition standalone_keys :: "int list" where
  "standalone_keys =
     List.map_filter option_key [''list'', ''lock'', ''unlock'', ''remove-all'']"

text \<open>
  The events \<^verbatim>\<open>argp_parse\<close> hands to the parser for a command line without \<^verbatim>\<open>-h\<close>: a
  positional argument with its text, or an option of the table, with an argument
  exactly when the table names one.
\<close>

definition supplied :: "int \<times> cstr \<Rightarrow> bool" where
  "supplied ev =
     (if fst ev = ARGP_KEY_ARG then snd ev \<noteq> None
      else list_ex (\<lambda>(name, key, argname). key = fst ev \<and> (argname = None) = (snd ev = None))
             options)"

definition initArguments :: arguments where
  "initArguments =
     \<lparr>args0 = None, remove_opt = 0, removeAll_opt = 0, debug = 0, verbose = 0,
      list_opt = 0, print = 0, lifetime_opt = \<lparr>lifetime = 0, argProvided = 0\<rparr>,
      lock = 0, unlock = 0, seccomp = 0\<rparr>"

section \<open>Stand-ins for the absent collaborators\<close>

text \<open>
  Small instances of the parameters, to run the model on concrete inputs. The cipher
  stand-in writes the password, a dot and the text; \<open>strToInt\<close> is \<^verbatim>\<open>atoi\<close>; the
  process has not called \<^verbatim>\<open>strtok\<close> before.
\<close>

definition stub_crypt_deps :: crypt_deps where
  "stub_crypt_deps =
     \<lparr>VERSION = ''2.1.1'',
      crypt_encrypt = (\<lambda>text password.
        case (text, password) of
          (Some t, Some p) \<Rightarrow> Inr (p @ ''.'' @ t)
        | _ \<Rightarrow> Inl (OIDC_EARGNULLFUNC ''crypt_encrypt'')),
      crypt_decrypt = (\<lambda>cipher password.
        case (cipher, password) of
          (Some c, Some p) \<Rightarrow>
            if prefix (p @ ''.'') c then Inr (drop (length p + 1) c) else Inl (OIDC_EOTHER 1)
        | _ \<Rightarrow> Inl (OIDC_EARGNULLFUNC ''crypt_decrypt'')),
      crypt_decryptFromList = (\<lambda>lines password.
        case (lines, password) of
          (l # ls, Some p) \<Rightarrow>
            if prefix (p @ ''.'') l then Inr (drop (length p + 1) l) else Inl (OIDC_EOTHER 1)
        | _ \<Rightarrow> Inl (OIDC_EARGNULLFUNC ''crypt_decryptFromList'')),
      crypt_decrypt_hex = (\<lambda>cipher len password nonce salt.
        case cipher of
          Some c \<Rightarrow> Inr c
        | None \<Rightarrow> Inl (OIDC_EARGNULLFUNC ''crypt_decrypt_hex'')),
      strToInt = (\<lambda>s. case s of None \<Rightarrow> 0 | Some t \<Rightarrow> word_of_int (atoi t)),
      strtok_olds = None\<rparr>"

text \<open>
  A stand-in for the cryptographic library. The coding writes \<^verbatim>\<open>=n\<close> for a newline and
  \<^verbatim>\<open>==\<close> for \<^verbatim>\<open>=\<close> and every other byte as it is; the key is the password followed by
  the salt, derived for the parameters \<^verbatim>\<open>m1\<close> only; the sealed text is the text followed
  by the key as its tag.
\<close>

fun stub_encode :: "bytes \<Rightarrow> string" where
  "stub_encode [] = []"
| "stub_encode (c # cs) =
     (if c = CHR 0x0A then ''=n'' else if c = CHR ''='' then ''=='' else [c]) @ stub_encode cs"

fun stub_decode :: "string \<Rightarrow> bytes option" where
  "stub_decode [] = Some []"
| "stub_decode [c] = (if c = CHR ''='' then None else Some [c])"
| "stub_decode (c # e # cs) =
     (if c = CHR ''=''
      then (if e = CHR ''n'' then map_option (Cons (CHR 0x0A)) (stub_decode cs)
            else if e = CHR ''='' then map_option (Cons (CHR ''='')) (stub_decode cs)
            else None)
      else map_option (Cons c) (stub_decode (e # cs)))"

definition stub_crypto_lib :: crypto_lib where
  "stub_crypto_lib =
     \<lparr>salt_bytes = (\<lambda>k. CHR ''s''),
      nonce_bytes = (\<lambda>k. CHR ''n''),
      kdf_params = ''m1'',
      kdf = (\<lambda>password salt params. if params = ''m1'' then Some (password @ salt) else None),
      aead_seal = (\<lambda>key nonce text. text @ key),
      aead_open = (\<lambda>key nonce sealed.
        if length key \<le> length sealed \<and> drop (length sealed - length key) sealed = key
        then Some (take (length sealed - length key) sealed) else None),
      base64url = stub_encode,
      base64url_decode = stub_decode\<rparr>"

text \<open>The program with the cipher of the spec over this library.\<close>

definition stub_cipher_deps :: crypt_deps where
  "stub_cipher_deps =
     stub_crypt_deps
       \<lparr>crypt_encrypt := crypt_encrypt_spec stub_crypto_lib,
        crypt_decryptFromList := crypt_decryptFromList_spec stub_crypto_lib\<rparr>"

text \<open>
  The JWKS stand-in: the fetched document is \<^verbatim>\<open>keys=\<close> and the keys, separated by
  commas, or a text without \<^verbatim>\<open>keys=\<close>; a key is its own text, the empty text is no
  key; the JSON text of a key is read as an object with the one member \<^verbatim>\<open>kty\<close>, and an
  object is printed member by member.
\<close>

fun stub_print :: "(string \<times> json) list \<Rightarrow> string" where
  "stub_print [] = []"
| "stub_print ((k, JString v) # ms) = k @ ''='' @ v @ '';'' @ stub_print ms"
| "stub_print ((k, j) # ms) = k @ ''=?;'' @ stub_print ms"

definition stub_jwk_deps :: "string jwk_deps" where
  "stub_jwk_deps =
     \<lparr>httpsGET = (\<lambda>url headers cert.
        if url = Some ''https://idp/one'' then Inr ''keys=k1''
        else if url = Some ''https://idp/two'' then Inr ''keys=k1,k2''
        else if url = Some ''https://idp/empty'' then Inr ''keys=''
        else if url = Some ''https://idp/other'' then Inr ''issuer=idp''
        else Inl (OIDC_EOTHER 1)),
      getJSONValueFromString = (\<lambda>json key.
        case json of
          None \<Rightarrow> None
        | Some j \<Rightarrow> if prefix (key @ ''='') j then Some (drop (length key + 1) j) else None),
      JSONArrayStringToList = (\<lambda>arr.
        case arr of None \<Rightarrow> None | Some a \<Rightarrow> Some (tokens '','' a)),
      cjose_jwk_import = (\<lambda>key len. if key = [] then Inl ''no key'' else Inr key),
      cjose_jwk_to_json = (\<lambda>jwk priv. if jwk = [] then Inl ''no key'' else Inr jwk),
      stringToJson = (\<lambda>s.
        case s of None \<Rightarrow> None | Some t \<Rightarrow> Some (JObject [(''kty'', JString t)])),
      jsonToStringUnformatted = (\<lambda>j.
        case j of
          Some (JObject ms) \<Rightarrow> Inr (stub_print ms)
        | _ \<Rightarrow> Inl (OIDC_EARGNULLFUNC ''jsonToStringUnformatted''))\<rparr>"

text \<open>
  The random characters of the first call are all \<^verbatim>\<open>_\<close>; every later call draws
  \<^verbatim>\<open>-\<close>, then \<^verbatim>\<open>a\<close>, then \<^verbatim>\<open>_\<close> from there on.
\<close>

definition stub_rnd :: "nat \<Rightarrow> nat \<Rightarrow> char" where
  "stub_rnd call k =
     (if call = 0 then CHR ''_'' else if k = 0 then CHR ''-'' else if k = 1 then CHR ''a''
      else CHR ''_'')"

section \<open>Shared facts\<close>

lemma no_version_is_old: "\<not> versionAtLeast None MIN_BASE64_VERSION"
  by (simp add: versionAtLeast_def version_components_def MIN_BASE64_VERSION_def
      decimal_def isdigit_def)

subsection \<open>The option parser\<close>

lemma standalone_keys_eq:
  "standalone_keys = [key_of CHR ''l'', key_of CHR ''x'', key_of CHR ''X'', key_of CHR ''R'']"
  by (simp add: standalone_keys_def List.map_filter_def option_key_def options_def)

lemma parse_opt_end:
  "parse_opt ARGP_KEY_END arg st =
     (if list_opt (input st) \<noteq> 0 \<or> lock (input st) \<noteq> 0 \<or> unlock (input st) \<noteq> 0 \<or>
         removeAll_opt (input st) \<noteq> 0 \<or> 1 \<le> arg_num st
      then Returned 0 st else Usage_exit)"
  by (auto simp: parse_opt_def Let_def key_of_def OPT_SECCOMP_def ARGP_KEY_ARG_def
      ARGP_KEY_END_def)

lemma parse_opt_arg:
  "parse_opt ARGP_KEY_ARG arg st =
     (if 1 \<le> arg_num st then Usage_exit
      else Returned 0 (st\<lparr>input := (input st)\<lparr>args0 := arg\<rparr>\<rparr>))"
  by (simp add: parse_opt_def Let_def key_of_def OPT_SECCOMP_def ARGP_KEY_ARG_def)

lemma parse_opt_lifetime:
  "parse_opt (key_of CHR ''t'') (Some a) st =
     (if isdigit (str0 a)
      then Returned 0 (st\<lparr>input := (input st)\<lparr>lifetime_opt := \<lparr>lifetime = atoi a, argProvided = 1\<rparr>\<rparr>\<rparr>)
      else Returned ARGP_ERR_UNKNOWN st)"
  by (simp add: parse_opt_def Let_def key_of_def)

lemma parse_opt_flags:
  "parse_opt (key_of CHR ''l'') arg st = Returned 0 (st\<lparr>input := (input st)\<lparr>list_opt := 1\<rparr>\<rparr>)"
  "parse_opt (key_of CHR ''x'') arg st = Returned 0 (st\<lparr>input := (input st)\<lparr>lock := 1\<rparr>\<rparr>)"
  "parse_opt (key_of CHR ''X'') arg st = Returned 0 (st\<lparr>input := (input st)\<lparr>unlock := 1\<rparr>\<rparr>)"
  "parse_opt (key_of CHR ''R'') arg st = Returned 0 (st\<lparr>input := (input st)\<lparr>removeAll_opt := 1\<rparr>\<rparr>)"
  by (simp_all add: parse_opt_def Let_def key_of_def)

lemma lifetime_not_standalone: "key_of CHR ''t'' \<notin> set standalone_keys"
  by (simp add: standalone_keys_eq key_of_def)

lemma parse_opt_supplied:
  assumes "supplied (key, arg)" "key \<noteq> ARGP_KEY_ARG"
    and "\<And>a. key = key_of CHR ''t'' \<Longrightarrow> arg = Some a \<Longrightarrow> isdigit (str0 a)"
  shows "\<exists>st'. parse_opt key arg st = Returned 0 st' \<and> arg_num st' = arg_num st
           \<and> args0 (input st') = args0 (input st)
           \<and> ((list_opt (input st') \<noteq> 0 \<or> lock (input st') \<noteq> 0 \<or> unlock (input st') \<noteq> 0 \<or>
                removeAll_opt (input st') \<noteq> 0) =
               (list_opt (input st) \<noteq> 0 \<or> lock (input st) \<noteq> 0 \<or> unlock (input st) \<noteq> 0 \<or>
                removeAll_opt (input st) \<noteq> 0 \<or> key \<in> set standalone_keys))"
proof -
  from assms(1,2) consider
      "key = key_of CHR ''r''" | "key = key_of CHR ''R''" | "key = key_of CHR ''l''"
    | "key = key_of CHR ''p''" | "key = key_of CHR ''t''" "arg \<noteq> None" | "key = key_of CHR ''x''"
    | "key = key_of CHR ''X''" | "key = OPT_SECCOMP" | "key = key_of CHR ''g''"
    | "key = key_of CHR ''v''"
    by (auto simp: supplied_def options_def)
  then show ?thesis
  proof cases
    case 5
    then obtain a where a: "arg = Some a" by auto
    with assms(3) 5 have "isdigit (str0 a)" by simp
    then show ?thesis
      using lifetime_not_standalone by (simp add: 5 a parse_opt_lifetime)
  qed (simp_all add: parse_opt_def Let_def key_of_def OPT_SECCOMP_def standalone_keys_eq)
qed

lemma argp_parse_supplied:
  assumes "list_all supplied evs"
    and "\<forall>a. (key_of CHR ''t'', Some a) \<in> set evs \<longrightarrow> isdigit (str0 a)"
  shows "if (positional evs = [] \<or> (arg_num st = 0 \<and> length (positional evs) = 1))
            \<and> (1 \<le> arg_num st + length (positional evs)
               \<or> list_opt (input st) \<noteq> 0 \<or> lock (input st) \<noteq> 0 \<or> unlock (input st) \<noteq> 0
               \<or> removeAll_opt (input st) \<noteq> 0
               \<or> (\<exists>e\<in>set evs. fst e \<in> set standalone_keys))
         then \<exists>st'. argp_parse evs st = Returned 0 st'
                \<and> arg_num st' = arg_num st + length (positional evs)
                \<and> args0 (input st') =
                    (case positional evs of [] \<Rightarrow> args0 (input st) | e # es \<Rightarrow> snd e)
         else argp_parse evs st = Usage_exit"
    (is "if ?C evs st then ?A evs st else ?U evs st")
  using assms
proof (induction evs arbitrary: st)
  case Nil
  then show ?case by (auto simp: parse_opt_end positional_def)
next
  case (Cons ev evs)
  obtain key arg where ev: "ev = (key, arg)" by (cases ev)
  have sup: "list_all supplied evs"
    and dig: "\<forall>a. (key_of CHR ''t'', Some a) \<in> set evs \<longrightarrow> isdigit (str0 a)"
    using Cons.prems by auto
  note IH = Cons.IH [OF sup dig]
  let ?e = "(key, arg)"
  show ?case
    unfolding ev
  proof (cases "key = ARGP_KEY_ARG")
    case True
    show "if ?C (?e # evs) st then ?A (?e # evs) st else ?U (?e # evs) st"
    proof (cases "1 \<le> arg_num st")
      case True
      with \<open>key = ARGP_KEY_ARG\<close> show ?thesis
        by (simp add: parse_opt_arg positional_def)
    next
      case False
      let ?st1 = "st\<lparr>input := (input st)\<lparr>args0 := arg\<rparr>\<rparr>\<lparr>arg_num := Suc (arg_num st)\<rparr>"
      have run: "argp_parse (?e # evs) st = argp_parse evs ?st1"
        using False \<open>key = ARGP_KEY_ARG\<close> by (simp add: parse_opt_arg)
      have pos: "positional (?e # evs) = ?e # positional evs"
        using \<open>key = ARGP_KEY_ARG\<close> by (simp add: positional_def)
      have no_key: "key \<notin> set standalone_keys"
        using \<open>key = ARGP_KEY_ARG\<close> by (simp add: standalone_keys_eq key_of_def ARGP_KEY_ARG_def)
      have c: "?C evs ?st1 = ?C (?e # evs) st"
        using False no_key by (auto simp: pos)
      show ?thesis
      proof (cases "?C (?e # evs) st")
        case yes: True
        then have p: "positional evs = []" using False by (auto simp: pos)
        from yes have "?C evs ?st1" unfolding c .
        with IH [of ?st1] have "?A evs ?st1" by (simp only: if_True)
        then obtain st' where r: "argp_parse evs ?st1 = Returned 0 st'"
          and n: "arg_num st' = arg_num ?st1 + length (positional evs)"
          and a: "args0 (input st') =
              (case positional evs of [] \<Rightarrow> args0 (input ?st1) | e # es \<Rightarrow> snd e)"
          by blast
        have "arg_num st' = arg_num st + length (positional (?e # evs))"
          using n by (simp add: pos)
        moreover have "args0 (input st') =
            (case positional (?e # evs) of [] \<Rightarrow> args0 (input st) | e # es \<Rightarrow> snd e)"
          using a by (simp add: pos p)
        ultimately have A: "?A (?e # evs) st" using r run by simp
        show ?thesis by (subst if_P) (rule yes A)+
      next
        case no: False
        from no have "\<not> ?C evs ?st1" unfolding c .
        with IH [of ?st1] have "?U evs ?st1" by (simp only: if_False)
        then have U: "?U (?e # evs) st" by (simp only: run)
        show ?thesis by (subst if_not_P) (rule no U)+
      qed
    qed
  next
    case False
    have "supplied (key, arg)" using Cons.prems(1) by (simp add: ev)
    moreover have "\<And>a. key = key_of CHR ''t'' \<Longrightarrow> arg = Some a \<Longrightarrow> isdigit (str0 a)"
      using Cons.prems(2) by (simp add: ev)
    ultimately obtain st1 where
      p: "parse_opt key arg st = Returned 0 st1" and n: "arg_num st1 = arg_num st"
      and a0: "args0 (input st1) = args0 (input st)"
      and f: "(list_opt (input st1) \<noteq> 0 \<or> lock (input st1) \<noteq> 0 \<or> unlock (input st1) \<noteq> 0 \<or>
                removeAll_opt (input st1) \<noteq> 0) =
               (list_opt (input st) \<noteq> 0 \<or> lock (input st) \<noteq> 0 \<or> unlock (input st) \<noteq> 0 \<or>
                removeAll_opt (input st) \<noteq> 0 \<or> key \<in> set standalone_keys)"
      using parse_opt_supplied [OF _ False, of arg st] by blast
    have run: "argp_parse (?e # evs) st = argp_parse evs st1"
      using False by (simp add: p)
    have pos: "positional (?e # evs) = positional evs"
      using False by (simp add: positional_def)
    have c: "?C evs st1 = ?C (?e # evs) st"
      unfolding pos n using f by auto
    show "if ?C (?e # evs) st then ?A (?e # evs) st else ?U (?e # evs) st"
    proof (cases "?C (?e # evs) st")
      case yes: True
      from yes have "?C evs st1" unfolding c .
      with IH [of st1] have "?A evs st1" by (simp only: if_True)
      then have A: "?A (?e # evs) st" unfolding run pos n a0 .
      show ?thesis by (subst if_P) (rule yes A)+
    next
      case no: False
      from no have "\<not> ?C evs st1" unfolding c .
      with IH [of st1] have "?U evs st1" by (simp only: if_False)
      then have U: "?U (?e # evs) st" by (simp only: run)
      show ?thesis by (subst if_not_P) (rule no U)+
    qed
  qed
qed


lemma of_char_int: "(of_char c :: int) = int (of_char c)"
  by (simp add: of_char_def)

lemma decimal_nonneg_aux: "0 \<le> acc \<Longrightarrow> \<forall>c\<in>set ds. isdigit c \<Longrightarrow>
   0 \<le> foldl (\<lambda>acc c. 10 * acc + ((of_char c :: int) - 48)) acc ds"
proof (induction ds arbitrary: acc)
  case Nil
  then show ?case by simp
next
  case (Cons a ds)
  have "0 \<le> 10 * acc + ((of_char a :: int) - 48)"
    using Cons.prems by (simp add: isdigit_def of_char_int)
  then show ?case using Cons by simp
qed

lemma decimal_nonneg: "\<forall>c\<in>set ds. isdigit c \<Longrightarrow> 0 \<le> decimal ds"
  unfolding decimal_def by (rule decimal_nonneg_aux) simp_all

lemma digit_no_space: "isdigit c \<Longrightarrow> \<not> isspace c \<and> c \<noteq> CHR ''-'' \<and> c \<noteq> CHR ''+''"
  by (auto simp: isdigit_def isspace_def)

lemma takeWhile_digits: "\<forall>c\<in>set ds. isdigit c \<Longrightarrow> \<not> isdigit (str0 rest) \<Longrightarrow>
   takeWhile isdigit (ds @ rest) = ds"
  by (cases rest) (auto simp: str0_def takeWhile_append)

lemma atoi_digits:
  assumes "ds \<noteq> []" "\<forall>c\<in>set ds. isdigit c" "\<not> isdigit (str0 rest)" "decimal ds < 2 ^ 31"
  shows "atoi (ds @ rest) = decimal ds"
proof -
  obtain c cs where ds: "ds = c # cs" using assms(1) by (cases ds) auto
  then have c: "isdigit c" using assms(2) by simp
  have tw: "takeWhile isdigit (ds @ rest) = ds" using assms(2,3) by (rule takeWhile_digits)
  have "strtol10 (ds @ rest) = min (decimal ds) (2 ^ 63 - 1)"
    using digit_no_space [OF c] tw by (simp add: strtol10_def ds)
  also have "\<dots> = decimal ds" using assms(4) by simp
  finally have s: "strtol10 (ds @ rest) = decimal ds" .
  have "0 \<le> decimal ds" using assms(2) by (rule decimal_nonneg)
  then show ?thesis using assms(4)
    by (simp add: atoi_def s sint_sbintrunc' signed_take_bit_int_eq_self)
qed

lemma option_keys:
  "option_key ''list'' = Some (key_of CHR ''l'')"
  "option_key ''lock'' = Some (key_of CHR ''x'')"
  "option_key ''unlock'' = Some (key_of CHR ''X'')"
  "option_key ''remove-all'' = Some (key_of CHR ''R'')"
  "option_key ''lifetime'' = Some (key_of CHR ''t'')"
  by (simp_all add: option_key_def options_def)

lemma argp_parse_bad_lifetime:
  "\<not> isdigit (str0 a) \<Longrightarrow> argp_parse ((key_of CHR ''t'', Some a) # evs) st = Error_exit"
  by (simp add: parse_opt_lifetime ARGP_ERR_UNKNOWN_def)

lemma argp_parse_command_line:
  assumes "list_all supplied evs"
    and "\<forall>a. (key_of CHR ''t'', Some a) \<in> set evs \<longrightarrow> isdigit (str0 a)"
  shows "if length (positional evs) = 1
            \<or> (positional evs = [] \<and> (\<exists>e\<in>set evs. fst e \<in> set standalone_keys))
         then \<exists>state'. argp_parse evs \<lparr>input = initArguments, arg_num = 0\<rparr> = Returned 0 state'
                \<and> arg_num state' = length (positional evs)
                \<and> args0 (input state') =
                    (case positional evs of [] \<Rightarrow> None | e # es \<Rightarrow> snd e)
         else argp_parse evs \<lparr>input = initArguments, arg_num = 0\<rparr> = Usage_exit"
    (is "if ?C then ?A else ?U")
proof -
  define st0 where "st0 = \<lparr>input = initArguments, arg_num = 0\<rparr>"
  have i: "arg_num st0 = 0" "list_opt (input st0) = 0" "lock (input st0) = 0"
    "unlock (input st0) = 0" "removeAll_opt (input st0) = 0" "args0 (input st0) = None"
    by (simp_all add: st0_def initArguments_def)
  note r = argp_parse_supplied [OF assms, of st0, unfolded i]
  show ?thesis
  proof (cases ?C)
    case yes: True
    then have "(positional evs = [] \<or> (0 = (0::nat) \<and> length (positional evs) = 1))
            \<and> (1 \<le> 0 + length (positional evs)
               \<or> (0::int) \<noteq> 0 \<or> (0::int) \<noteq> 0 \<or> (0::int) \<noteq> 0 \<or> (0::int) \<noteq> 0
               \<or> (\<exists>e\<in>set evs. fst e \<in> set standalone_keys))"
      by auto
    with r have "\<exists>st'. argp_parse evs st0 = Returned 0 st'
                \<and> arg_num st' = 0 + length (positional evs)
                \<and> args0 (input st') =
                    (case positional evs of [] \<Rightarrow> None | e # es \<Rightarrow> snd e)"
      by (simp only: if_True)
    then have A: ?A unfolding st0_def by simp
    show ?thesis by (subst if_P) (rule yes A)+
  next
    case no: False
    then have "\<not> ((positional evs = [] \<or> (0 = (0::nat) \<and> length (positional evs) = 1))
            \<and> (1 \<le> 0 + length (positional evs)
               \<or> (0::int) \<noteq> 0 \<or> (0::int) \<noteq> 0 \<or> (0::int) \<noteq> 0 \<or> (0::int) \<noteq> 0
               \<or> (\<exists>e\<in>set evs. fst e \<in> set standalone_keys)))"
      by (cases "positional evs") auto
    with r have "argp_parse evs st0 = Usage_exit"
      by (simp only: if_False)
    then have U: ?U unfolding st0_def .
    show ?thesis by (subst if_not_P) (rule no U)+
  qed
qed

subsection \<open>The tokeniser\<close>

lemma strtok_None: "strtok None delim (Some olds) = strtok (Some olds) delim x"
  by (simp add: strtok_def)

lemma strtok_end:
  "strtok (Some s) delim x = Returns (None, r) \<Longrightarrow> tokens delim s = [] \<and> r = []"
  by (subst tokens.simps) (auto simp: strtok_def Let_def split: if_splits)

lemma strtok_tok:
  "strtok (Some s) delim x = Returns (Some t, r) \<Longrightarrow> tokens delim s = t # tokens delim r"
  by (subst tokens.simps) (auto simp: strtok_def Let_def split: if_splits)

lemma tokens_Nil: "tokens delim [] = []"
  by (subst tokens.simps) (simp add: strtok_def)

lemma strtok_tokens:
  "\<exists>r. strtok (Some s) delim x = Returns (list_at (tokens delim s) 0, r)
       \<and> tokens delim r = tl (tokens delim s)"
proof -
  have "\<exists>t r. strtok (Some s) delim x = Returns (t, r)"
    by (simp add: strtok_def Let_def)
  then obtain t r where p: "strtok (Some s) delim x = Returns (t, r)" by blast
  show ?thesis
  proof (cases t)
    case None
    with p show ?thesis by (auto dest: strtok_end simp: list_at_def tokens_Nil)
  next
    case (Some a)
    with p show ?thesis by (auto dest: strtok_tok simp: list_at_def)
  qed
qed

lemma scast_zero_iff: "(scast (x :: 32 word) :: 64 word) = 0 \<longleftrightarrow> x = 0"
proof
  assume "(scast x :: 64 word) = 0"
  then have "sint (scast x :: 64 word) = 0" by simp
  then have "sint x = 0" by (simp add: sint_up_scast is_up)
  then show "x = 0" by (simp add: signed_eq_0_iff)
qed simp

lemma decryptHexFileContent_tokens:
  "decryptHexFileContent d (Some s) password =
     Returns
       (let toks = tokens '':'' s;
            cipher_len = (scast (strToInt d (list_at toks 0)) :: 64 word)
        in if cipher_len = 0 \<or> length toks < 4 then Inl OIDC_ECRYPM
           else crypt_decrypt_hex d (list_at toks 3) cipher_len password (list_at toks 2)
                  (list_at toks 1))"
proof -
  let ?toks = "tokens '':'' s"
  obtain o1 where s1: "strtok (Some s) '':'' (strtok_olds d) = Returns (list_at ?toks 0, o1)"
    and t1: "tokens '':'' o1 = tl ?toks"
    using strtok_tokens [of s "'':''" "strtok_olds d"] by blast
  obtain o2 where s2: "strtok (Some o1) '':'' None = Returns (list_at (tl ?toks) 0, o2)"
    and t2: "tokens '':'' o2 = tl (tl ?toks)"
    using strtok_tokens [of o1 "'':''" None] by (auto simp: t1)
  obtain o3 where s3: "strtok (Some o2) '':'' None = Returns (list_at (tl (tl ?toks)) 0, o3)"
    and t3: "tokens '':'' o3 = tl (tl (tl ?toks))"
    using strtok_tokens [of o2 "'':''" None] by (auto simp: t2)
  obtain o4 where
    s4: "strtok (Some o3) '':'' None = Returns (list_at (tl (tl (tl ?toks))) 0, o4)"
    using strtok_tokens [of o3 "'':''" None] by (auto simp: t3)
  have unfold: "decryptHexFileContent d (Some s) password =
     Returns
       (let cipher_len = (scast (strToInt d (list_at ?toks 0)) :: 64 word)
        in if cipher_len = 0 \<or> list_at (tl ?toks) 0 = None \<or> list_at (tl (tl ?toks)) 0 = None
              \<or> list_at (tl (tl (tl ?toks))) 0 = None
           then Inl OIDC_ECRYPM
           else crypt_decrypt_hex d (list_at (tl (tl (tl ?toks))) 0) cipher_len password
             (list_at (tl (tl ?toks)) 0) (list_at (tl ?toks) 0))"
    unfolding decryptHexFileContent_def oidc_strcopy_def Let_def
      strtok_None [of _ _ None]
    by (simp add: s1 s2 s3 s4)
  show ?thesis
    unfolding unfold
    by (cases ?toks rule: list.exhaust; cases "tl ?toks"; cases "tl (tl ?toks)";
        cases "tl (tl (tl ?toks))") (auto simp: list_at_def Let_def)
qed

lemma tokens_skip: "tokens [d] (d # s) = tokens [d] s"
  by (subst (1 2) tokens.simps) (simp add: strtok_def)

lemma tokens_first:
  assumes "t \<noteq> []" "d \<notin> set t"
  shows "tokens [d] (t @ d # s) = t # tokens [d] s"
proof -
  obtain c cs where t: "t = c # cs" using assms(1) by (cases t) auto
  have a: "dropWhile (\<lambda>c. c \<in> set [d]) (t @ d # s) = t @ d # s"
    using assms(2) by (auto simp: t)
  have b: "takeWhile (\<lambda>c. c \<notin> set [d]) (t @ d # s) = t"
    using assms(2) by (auto simp: takeWhile_tail)
  have c: "dropWhile (\<lambda>c. c \<notin> set [d]) (t @ d # s) = d # s"
    using assms(2) by (auto simp: dropWhile_append3)
  have "strtok (Some (t @ d # s)) [d] None = Returns (Some t, s)"
    unfolding strtok_def Let_def option.case a b c by (simp add: t)
  then show ?thesis by (subst tokens.simps) simp
qed

lemma tokens_single:
  assumes "t \<noteq> []" "d \<notin> set t"
  shows "tokens [d] t = [t]"
proof -
  obtain c cs where t: "t = c # cs" using assms(1) by (cases t) auto
  have a: "dropWhile (\<lambda>c. c \<in> set [d]) t = t"
    using assms(2) by (auto simp: t)
  have b: "takeWhile (\<lambda>c. c \<notin> set [d]) t = t"
    using assms(2) by auto
  have c: "dropWhile (\<lambda>c. c \<notin> set [d]) t = []"
    using assms(2) by auto
  have "strtok (Some t) [d] None = Returns (Some t, [])"
    unfolding strtok_def Let_def option.case a b c by (simp add: t)
  then show ?thesis by (subst tokens.simps) (simp add: tokens_Nil)
qed

lemma tokens_append_line:
  assumes "v \<noteq> []" "d \<notin> set v"
  shows "tokens [d] (c @ d # v) = tokens [d] c @ [v]"
proof (induction "length c" arbitrary: c rule: less_induct)
  case less
  show ?case
  proof (cases c)
    case Nil
    then show ?thesis using assms by (simp add: tokens_skip tokens_single tokens_Nil)
  next
    case (Cons x c')
    show ?thesis
    proof (cases "x = d")
      case True
      then show ?thesis using less [of c'] by (simp add: Cons tokens_skip)
    next
      case False
      define t where "t = takeWhile (\<lambda>y. y \<noteq> d) c"
      define r where "r = dropWhile (\<lambda>y. y \<noteq> d) c"
      have c: "c = t @ r" by (simp add: t_def r_def)
      have t: "t \<noteq> []" "d \<notin> set t"
        using False by (auto simp: t_def Cons dest: set_takeWhileD)
      show ?thesis
      proof (cases r)
        case Nil
        then show ?thesis using t assms by (simp add: c tokens_first tokens_single)
      next
        case (Cons y r')
        then have y: "y = d" using hd_dropWhile [of "\<lambda>y. y \<noteq> d" c] by (simp add: r_def)
        have "length r' < length c" by (simp add: c Cons)
        from less [OF this] show ?thesis
          using t by (simp add: c Cons y tokens_first)
      qed
    qed
  qed
qed

subsection \<open>Lines and versions\<close>

lemma list_at_first: "list_at xs 0 = (case xs of [] \<Rightarrow> None | x # _ \<Rightarrow> Some x)"
  by (cases xs) (simp_all add: list_at_def)

lemma list_at_last: "list_at xs (- 1) = (if xs = [] then None else Some (last xs))"
  by (cases xs rule: rev_cases) (simp_all add: list_at_def)

lemma min_version_components: "version_components (Some MIN_BASE64_VERSION) = [2, 1, 0]"
  by (simp add: MIN_BASE64_VERSION_def version_components_def decimal_def isdigit_def)

lemma version_components_nonneg: "\<forall>x\<in>set (version_components v). 0 \<le> x"
  by (cases v) (auto simp: version_components_def intro!: decimal_nonneg dest: set_takeWhileD)

lemma version_ge_zeros:
  "\<forall>y\<in>set ys. 0 \<le> y \<Longrightarrow> version_ge (replicate n 0) ys = version_ge [] ys"
proof (induction n arbitrary: ys)
  case 0
  then show ?case by simp
next
  case (Suc n)
  then show ?case by (cases ys) auto
qed

lemma no_version_line: "versionLineToSimpleVersion None = None"
  by (simp add: versionLineToSimpleVersion_def)

lemma modern_version_line:
  "versionAtLeast (versionLineToSimpleVersion (Some l)) MIN_BASE64_VERSION \<longleftrightarrow>
     (\<exists>v. l = ''@oidc-agent '' @ v \<and> version_ge (version_components (Some v)) [2, 1, 0])"
proof (cases "prefix VERSION_LINE_START l")
  case True
  then obtain v where l: "l = VERSION_LINE_START @ v" by (auto simp: prefix_def)
  show ?thesis
    unfolding l versionLineToSimpleVersion_def versionAtLeast_def min_version_components
    by (simp add: VERSION_LINE_START_def)
next
  case False
  then have "\<not> (\<exists>v. l = ''@oidc-agent '' @ v)"
    by (auto simp: prefix_def VERSION_LINE_START_def)
  then show ?thesis
    using False no_version_is_old by (auto simp: versionLineToSimpleVersion_def)
qed

subsection \<open>The shift loop\<close>

lemma length_oidc_memshiftr: "length (oidc_memshiftr str len) = length str"
  by (cases "take len str = []") (auto simp: oidc_memshiftr_def Let_def min_def)

lemma set_oidc_memshiftr: "set (oidc_memshiftr str len) = set str"
proof (cases "take len str = []")
  case True
  then show ?thesis by (simp add: oidc_memshiftr_def)
next
  case False
  let ?b = "take len str"
  have "set ?b = set (butlast ?b @ [last ?b])"
    using False by simp
  then have b: "set ?b = insert (last ?b) (set (butlast ?b))" by simp
  have "set (oidc_memshiftr str len) = insert (last ?b) (set (butlast ?b)) \<union> set (drop len str)"
    using False by (simp add: oidc_memshiftr_def Let_def)
  also have "\<dots> = set ?b \<union> set (drop len str)" by (simp only: b)
  also have "\<dots> = set (?b @ drop len str)" by (simp only: set_append)
  also have "\<dots> = set str" by (simp only: append_take_drop_id)
  finally show ?thesis .
qed

lemma shifted_0: "shifted len 0 str = str"
  by (simp add: shifted_def)

lemma shifted_Suc: "shifted len (Suc s) str = shifted len s (oidc_memshiftr str len)"
  using funpow_swap1 [of "\<lambda>b. oidc_memshiftr b len" s str] by (simp add: shifted_def)

lemma length_shifted: "length (shifted len s str) = length str"
  by (induction s arbitrary: str) (simp_all add: shifted_0 shifted_Suc length_oidc_memshiftr)

lemma set_shifted: "set (shifted len s str) = set str"
  by (induction s arbitrary: str) (simp_all add: shifted_0 shifted_Suc set_oidc_memshiftr)

lemma shift_loop_stops:
  assumes "shifts + s < len" "isalnum (str0 (shifted len s str))"
    and "\<forall>t < s. \<not> isalnum (str0 (shifted len t str))"
  shows "shift_loop len shifts str = (shifts + s, shifted len s str)"
  using assms
proof (induction s arbitrary: shifts str)
  case 0
  then show ?case by (subst shift_loop.simps) (simp add: shifted_0)
next
  case (Suc s)
  from Suc.prems(3) have first: "\<not> isalnum (str0 str)"
    using shifted_0 [of len str] by (metis zero_less_Suc)
  have later: "\<forall>t < s. \<not> isalnum (str0 (shifted len t (oidc_memshiftr str len)))"
  proof (intro allI impI)
    fix t assume "t < s"
    then have "Suc t < Suc s" by simp
    with Suc.prems(3) have "\<not> isalnum (str0 (shifted len (Suc t) str))" by blast
    then show "\<not> isalnum (str0 (shifted len t (oidc_memshiftr str len)))"
      by (simp add: shifted_Suc)
  qed
  have "shift_loop len (Suc shifts) (oidc_memshiftr str len) =
      (Suc shifts + s, shifted len s (oidc_memshiftr str len))"
    using Suc.prems(1,2) later by (intro Suc.IH) (simp_all add: shifted_Suc)
  moreover have "shift_loop len shifts str = shift_loop len (Suc shifts) (oidc_memshiftr str len)"
    using first Suc.prems(1) by (subst shift_loop.simps) simp
  ultimately show ?case by (simp add: shifted_Suc)
qed

lemma shift_loop_exhausts:
  "shifts \<le> len \<Longrightarrow>
   \<forall>s. shifts + s < len \<longrightarrow> \<not> isalnum (str0 (shifted len s str)) \<Longrightarrow>
   fst (shift_loop len shifts str) = len"
proof (induction len shifts str rule: shift_loop.induct)
  case (1 len shifts str)
  show ?case
  proof (cases "shifts < len \<and> \<not> isalnum (str0 str)")
    case True
    have "\<forall>s. Suc shifts + s < len \<longrightarrow>
        \<not> isalnum (str0 (shifted len s (oidc_memshiftr str len)))"
    proof (intro allI impI)
      fix s assume "Suc shifts + s < len"
      then have "shifts + Suc s < len" by simp
      with "1.prems"(2) have "\<not> isalnum (str0 (shifted len (Suc s) str))"
        by blast
      then show "\<not> isalnum (str0 (shifted len s (oidc_memshiftr str len)))"
        by (simp add: shifted_Suc)
    qed
    with True "1.IH" show ?thesis by (simp add: shift_loop.simps [of len shifts str])
  next
    case False
    have "\<not> shifts < len"
    proof
      assume "shifts < len"
      with "1.prems"(2) [rule_format, of 0] False show False by (simp add: shifted_0)
    qed
    with "1.prems"(1) show ?thesis by (subst shift_loop.simps) simp
  qed
qed

lemma first_pass:
  assumes "\<exists>s<len. isalnum (str0 (shifted len s str))"
  obtains s where "s < len" "isalnum (str0 (shifted len s str))"
    "\<forall>t < s. \<not> isalnum (str0 (shifted len t str))"
proof -
  let ?P = "\<lambda>s. s < len \<and> isalnum (str0 (shifted len s str))"
  from assms have "\<exists>s. ?P s" by blast
  then obtain s where s: "?P s" and least: "\<forall>t < s. \<not> ?P t"
    using exists_least_iff [of ?P] by blast
  have "\<forall>t < s. \<not> isalnum (str0 (shifted len t str))"
  proof (intro allI impI)
    fix t assume "t < s"
    with least have "\<not> ?P t" by blast
    moreover have "t < len" using \<open>t < s\<close> s by simp
    ultimately show "\<not> isalnum (str0 (shifted len t str))" by blast
  qed
  with s that show thesis by blast
qed

lemma alnum_in_buffer:
  assumes "s < len" "isalnum (str0 (shifted len s (randomFillBase64UrlSafe src len)))"
  shows "\<exists>k<len. isalnum (src k)"
proof -
  let ?buf = "randomFillBase64UrlSafe src len"
  let ?r = "shifted len s ?buf"
  have "length ?r = len" by (simp add: length_shifted randomFillBase64UrlSafe_def)
  with assms(1) obtain c cs where r: "?r = c # cs" by (cases ?r) auto
  then have "c \<in> set ?r" by simp
  then have "c \<in> set ?buf" by (simp add: set_shifted)
  then obtain k where "k < len" "c = src k"
    by (auto simp: randomFillBase64UrlSafe_def)
  moreover have "isalnum c" using assms(2) by (simp add: r str0_def)
  ultimately show ?thesis by blast
qed


lemma memshiftr_funpow:
  "oidc_memshiftr (((\<lambda>b. oidc_memshiftr b len) ^^ n) str) len =
   ((\<lambda>b. oidc_memshiftr b len) ^^ n) (oidc_memshiftr str len)"
  using funpow_swap1 [of "\<lambda>b. oidc_memshiftr b len" n str] by simp

lemma memshiftr_snoc: "oidc_memshiftr (xs @ [a]) (Suc (length xs)) = a # xs"
  by (simp add: oidc_memshiftr_def)

lemma memshiftr_rotates:
  "((\<lambda>b. oidc_memshiftr b (length xs + length post)) ^^ length post) (xs @ post) = post @ xs"
proof (induction post arbitrary: xs rule: rev_induct)
  case Nil
  then show ?case by simp
next
  case (snoc a post)
  have "oidc_memshiftr (xs @ post @ [a]) (length xs + length (post @ [a])) = a # xs @ post"
    using memshiftr_snoc [of "xs @ post" a] by simp
  moreover have "((\<lambda>b. oidc_memshiftr b (length (a # xs) + length post)) ^^ length post)
      ((a # xs) @ post) = post @ a # xs"
    by (rule snoc.IH)
  ultimately show ?case by (simp add: memshiftr_funpow)
qed

lemma alnum_reaches_front:
  assumes "k < length buf" "isalnum (buf ! k)"
  shows "\<exists>s<length buf. isalnum (str0 (shifted (length buf) s buf))"
proof (cases k)
  case 0
  then show ?thesis
    using assms by (cases buf) (auto simp: str0_def shifted_0 intro!: exI [of _ 0])
next
  case (Suc k')
  define sh where "sh = (\<lambda>b. oidc_memshiftr b (length buf))"
  define pre where "pre = take k buf @ [buf ! k]"
  define post where "post = drop (Suc k) buf"
  have buf: "buf = pre @ post"
    using assms(1) by (simp add: pre_def post_def id_take_nth_drop [symmetric])
  have len: "length buf = length pre + length post" by (simp add: buf)
  have pre: "length pre = Suc k" using assms(1) by (simp add: pre_def)
  have "((\<lambda>b. oidc_memshiftr b (length pre + length post)) ^^ length post) (pre @ post) =
      post @ pre"
    by (rule memshiftr_rotates)
  then have a: "(sh ^^ length post) buf = post @ pre"
    unfolding len [symmetric] buf [symmetric] sh_def .
  have e: "Suc (length (post @ take k buf)) = length buf"
    using assms(1) by (simp add: post_def)
  have b: "sh (post @ pre) = buf ! k # post @ take k buf"
    using memshiftr_snoc [of "post @ take k buf" "buf ! k"] unfolding e
    by (simp add: sh_def pre_def)
  have "(sh ^^ Suc (length post)) buf = sh ((sh ^^ length post) buf)" by simp
  then have c: "(sh ^^ Suc (length post)) buf = buf ! k # post @ take k buf"
    by (simp only: a b)
  have "Suc (length post) < length buf" using assms(1) Suc by (simp add: post_def)
  moreover have "isalnum (str0 ((sh ^^ Suc (length post)) buf))"
    using assms(2) by (simp only: c) (simp add: str0_def)
  ultimately show ?thesis unfolding sh_def shifted_def by blast
qed

lemma buffer_passes:
  assumes "k < len" "isalnum (src k)"
  shows "\<exists>s<len. isalnum (str0 (shifted len s (randomFillBase64UrlSafe src len)))"
proof -
  let ?buf = "randomFillBase64UrlSafe src len"
  have len: "length ?buf = len" by (simp add: randomFillBase64UrlSafe_def)
  have "isalnum (?buf ! k)" using assms by (simp add: randomFillBase64UrlSafe_def)
  with assms(1) have "\<exists>s<length ?buf. isalnum (str0 (shifted (length ?buf) s ?buf))"
    by (intro alnum_reaches_front [of k]) (simp_all add: len)
  then show ?thesis by (simp only: len)
qed

lemma randomString_passes:
  assumes "s < len"
    and "isalnum (str0 (shifted len s (randomFillBase64UrlSafe (rnd call) len)))"
    and "\<forall>t < s. \<not> isalnum (str0 (shifted len t (randomFillBase64UrlSafe (rnd call) len)))"
  shows "randomString rnd call len = Some (shifted len s (randomFillBase64UrlSafe (rnd call) len))"
proof -
  have "shift_loop len 0 (randomFillBase64UrlSafe (rnd call) len) =
      (0 + s, shifted len s (randomFillBase64UrlSafe (rnd call) len))"
    using assms by (intro shift_loop_stops) simp_all
  then show ?thesis using assms(1) by (subst randomString.simps) (simp add: Let_def)
qed

lemma randomString_retries:
  assumes "\<forall>t<len. \<not> isalnum (str0 (shifted len t (randomFillBase64UrlSafe (rnd call) len)))"
  shows "randomString rnd call len = randomString rnd (Suc call) len"
proof -
  have "fst (shift_loop len 0 (randomFillBase64UrlSafe (rnd call) len)) = len"
    using assms by (intro shift_loop_exhausts) simp_all
  then show ?thesis by (subst randomString.simps) (simp add: Let_def)
qed

lemma randomString_at:
  assumes "\<forall>i<j. \<forall>t<len. \<not> isalnum (str0 (shifted len t
             (randomFillBase64UrlSafe (rnd (call + i)) len)))"
    and "s < len"
    and "isalnum (str0 (shifted len s (randomFillBase64UrlSafe (rnd (call + j)) len)))"
    and "\<forall>t < s. \<not> isalnum (str0 (shifted len t (randomFillBase64UrlSafe (rnd (call + j)) len)))"
  shows "randomString rnd call len =
           Some (shifted len s (randomFillBase64UrlSafe (rnd (call + j)) len))"
  using assms
proof (induction j arbitrary: call)
  case 0
  then show ?case using randomString_passes [of s len rnd call] by simp
next
  case (Suc j)
  have "\<forall>t<len. \<not> isalnum (str0 (shifted len t (randomFillBase64UrlSafe (rnd call) len)))"
    using Suc.prems(1) [rule_format, of 0] by simp
  then have "randomString rnd call len = randomString rnd (Suc call) len"
    by (rule randomString_retries)
  also have "\<dots> = Some (shifted len s (randomFillBase64UrlSafe (rnd (Suc call + j)) len))"
  proof (rule Suc.IH)
    show "\<forall>i<j. \<forall>t<len. \<not> isalnum (str0 (shifted len t
             (randomFillBase64UrlSafe (rnd (Suc call + i)) len)))"
    proof (intro allI impI)
      fix i t assume "i < j" "t < len"
      then show "\<not> isalnum (str0 (shifted len t (randomFillBase64UrlSafe (rnd (Suc call + i)) len)))"
        using Suc.prems(1) [rule_format, of "Suc i" t] by simp
    qed
  qed (use Suc.prems in simp_all)
  finally show ?case by simp
qed

lemma randomString_result:
  assumes "randomString rnd call len = Some r"
  shows "\<exists>j. \<exists>s<len.
           r = shifted len s (randomFillBase64UrlSafe (rnd (call + j)) len)
           \<and> isalnum (str0 r)
           \<and> (\<forall>t < s. \<not> isalnum (str0 (shifted len t
                  (randomFillBase64UrlSafe (rnd (call + j)) len))))
           \<and> (\<forall>i<j. \<forall>t<len. \<not> isalnum (str0 (shifted len t
                  (randomFillBase64UrlSafe (rnd (call + i)) len))))"
proof (rule randomString.raw_induct
    [where P = "\<lambda>rnd call len r. \<exists>j. \<exists>s<len.
           r = shifted len s (randomFillBase64UrlSafe (rnd (call + j)) len)
           \<and> isalnum (str0 r)
           \<and> (\<forall>t < s. \<not> isalnum (str0 (shifted len t
                  (randomFillBase64UrlSafe (rnd (call + j)) len))))
           \<and> (\<forall>i<j. \<forall>t<len. \<not> isalnum (str0 (shifted len t
                  (randomFillBase64UrlSafe (rnd (call + i)) len))))", OF _ assms])
  fix f :: "(nat \<Rightarrow> nat \<Rightarrow> char) \<Rightarrow> nat \<Rightarrow> nat \<Rightarrow> string option"
    and rnd :: "nat \<Rightarrow> nat \<Rightarrow> char" and call len :: nat and r :: string
  let ?buf = "\<lambda>c. randomFillBase64UrlSafe (rnd c) len"
  let ?pass = "\<lambda>c t. isalnum (str0 (shifted len t (?buf c)))"
  assume IH: "\<And>rnd call len r. f rnd call len = Some r \<Longrightarrow>
      \<exists>j. \<exists>s<len.
           r = shifted len s (randomFillBase64UrlSafe (rnd (call + j)) len)
           \<and> isalnum (str0 r)
           \<and> (\<forall>t < s. \<not> isalnum (str0 (shifted len t
                  (randomFillBase64UrlSafe (rnd (call + j)) len))))
           \<and> (\<forall>i<j. \<forall>t<len. \<not> isalnum (str0 (shifted len t
                  (randomFillBase64UrlSafe (rnd (call + i)) len))))"
    and body: "(let str = ?buf call; r = shift_loop len 0 str
                in if len \<le> fst r then f rnd (Suc call) len else Some (snd r)) = Some r"
  show "\<exists>j. \<exists>s<len. r = shifted len s (?buf (call + j)) \<and> isalnum (str0 r)
           \<and> (\<forall>t < s. \<not> ?pass (call + j) t) \<and> (\<forall>i<j. \<forall>t<len. \<not> ?pass (call + i) t)"
  proof (cases "\<exists>s<len. ?pass call s")
    case True
    then obtain s where s: "s < len" "?pass call s" "\<forall>t < s. \<not> ?pass call t"
      by (rule first_pass)
    then have "shift_loop len 0 (?buf call) = (0 + s, shifted len s (?buf call))"
      by (intro shift_loop_stops) simp_all
    with body s(1) have "r = shifted len s (?buf call)" by (simp add: Let_def)
    with s show ?thesis by (intro exI [of _ 0] exI [of _ s]) simp
  next
    case False
    then have none: "\<forall>t<len. \<not> ?pass call t" by blast
    then have "fst (shift_loop len 0 (?buf call)) = len"
      by (intro shift_loop_exhausts) simp_all
    with body have "f rnd (Suc call) len = Some r" by (simp add: Let_def)
    from IH [OF this] obtain j s where s: "s < len"
      and r: "r = shifted len s (?buf (Suc call + j))" "isalnum (str0 r)"
      and least: "\<forall>t < s. \<not> ?pass (Suc call + j) t"
      and before: "\<forall>i<j. \<forall>t<len. \<not> ?pass (Suc call + i) t"
      by blast
    have "\<forall>i<Suc j. \<forall>t<len. \<not> ?pass (call + i) t"
    proof (intro allI impI)
      fix i t assume i: "i < Suc j" and t: "t < len"
      show "\<not> ?pass (call + i) t"
      proof (cases i)
        case 0
        with none t show ?thesis by simp
      next
        case (Suc i')
        with i before t show ?thesis by simp
      qed
    qed
    with s r least show ?thesis
      by (intro exI [of _ "Suc j"] exI [of _ s]) simp
  qed
qed

lemma randomString_never:
  assumes "\<forall>j. \<forall>k<len. \<not> isalnum (rnd (call + j) k)"
  shows "randomString rnd call len = None"
proof (cases "randomString rnd call len")
  case None
  then show ?thesis .
next
  case (Some r)
  from randomString_result [OF this] obtain j s where "s < len"
    "r = shifted len s (randomFillBase64UrlSafe (rnd (call + j)) len)" "isalnum (str0 r)"
    by blast
  then have "\<exists>k<len. isalnum (rnd (call + j) k)"
    using alnum_in_buffer [of s len "rnd (call + j)"] by simp
  with assms show ?thesis by blast
qed

lemma randomString_returns:
  "\<exists>k<len. isalnum (rnd (call + j) k) \<Longrightarrow> \<exists>r. randomString rnd call len = Some r"
proof (induction j arbitrary: call)
  case 0
  then have "\<exists>s<len. isalnum (str0 (shifted len s (randomFillBase64UrlSafe (rnd call) len)))"
    using buffer_passes [of _ len "rnd call"] by auto
  then obtain s where "s < len"
    "isalnum (str0 (shifted len s (randomFillBase64UrlSafe (rnd call) len)))"
    "\<forall>t < s. \<not> isalnum (str0 (shifted len t (randomFillBase64UrlSafe (rnd call) len)))"
    by (rule first_pass)
  then show ?case using randomString_passes [of s len rnd call] by simp
next
  case (Suc j)
  show ?case
  proof (cases "\<exists>s<len. isalnum (str0 (shifted len s (randomFillBase64UrlSafe (rnd call) len)))")
    case True
    then obtain s where "s < len"
      "isalnum (str0 (shifted len s (randomFillBase64UrlSafe (rnd call) len)))"
      "\<forall>t < s. \<not> isalnum (str0 (shifted len t (randomFillBase64UrlSafe (rnd call) len)))"
      by (rule first_pass)
    then show ?thesis using randomString_passes [of s len rnd call] by simp
  next
    case False
    then have "randomString rnd call len = randomString rnd (Suc call) len"
      by (intro randomString_retries) blast
    moreover have "\<exists>r. randomString rnd (Suc call) len = Some r"
      using Suc.prems by (intro Suc.IH) simp
    ultimately show ?thesis by simp
  qed
qed

subsection \<open>The cipher of the spec\<close>

lemma stub_decode_plain:
  "c \<noteq> CHR ''='' \<Longrightarrow> stub_decode (c # xs) = map_option (Cons c) (stub_decode xs)"
  by (cases xs) auto

lemma stub_decode_encode: "stub_decode (stub_encode bs) = Some bs"
  by (induction bs) (auto simp: stub_decode_plain)

lemma stub_encode_line: "CHR 0x0A \<notin> set (stub_encode bs)"
  by (induction bs) auto

lemma stub_encode_nonempty: "bs \<noteq> [] \<Longrightarrow> stub_encode bs \<noteq> []"
  by (cases bs) auto

lemma length_random_bytes: "length (random_bytes src n) = n"
  by (simp add: random_bytes_def)

lemma envelope_opens:
  assumes b64: "\<And>bs. base64url_decode lib (base64url lib bs) = Some bs"
    and key: "kdf lib W (random_bytes (salt_bytes lib) SALT_LEN) (kdf_params lib) = Some k"
    and aead: "\<And>k n t. aead_open lib k n (aead_seal lib k n t) = Some t"
  shows "crypt_encrypt_spec lib (Some P) (Some W) =
           Inr (base64url lib (random_bytes (salt_bytes lib) SALT_LEN
                  @ random_bytes (nonce_bytes lib) NONCE_LEN @ kdf_params lib
                  @ aead_seal lib k (random_bytes (nonce_bytes lib) NONCE_LEN) P))"
    and "crypt_decryptFromList_spec lib
           (base64url lib (random_bytes (salt_bytes lib) SALT_LEN
                  @ random_bytes (nonce_bytes lib) NONCE_LEN @ kdf_params lib
                  @ aead_seal lib k (random_bytes (nonce_bytes lib) NONCE_LEN) P) # rest)
           (Some W) = Inr P"
proof -
  show "crypt_encrypt_spec lib (Some P) (Some W) =
           Inr (base64url lib (random_bytes (salt_bytes lib) SALT_LEN
                  @ random_bytes (nonce_bytes lib) NONCE_LEN @ kdf_params lib
                  @ aead_seal lib k (random_bytes (nonce_bytes lib) NONCE_LEN) P))"
    by (simp add: crypt_encrypt_spec_def Let_def key)
  show "crypt_decryptFromList_spec lib
           (base64url lib (random_bytes (salt_bytes lib) SALT_LEN
                  @ random_bytes (nonce_bytes lib) NONCE_LEN @ kdf_params lib
                  @ aead_seal lib k (random_bytes (nonce_bytes lib) NONCE_LEN) P) # rest)
           (Some W) = Inr P"
    by (simp add: crypt_decryptFromList_spec_def Let_def b64 length_random_bytes key aead)
qed

subsection \<open>NULL arguments\<close>

lemma null_checks:
  "decryptLinesList d None password = Returns (Inl (OIDC_EARGNULLFUNC ''decryptLinesList''))"
  "decryptText d None password version = Returns (Inl (OIDC_EARGNULLFUNC ''decryptText''))"
  "decryptText d cipher None version = Returns (Inl (OIDC_EARGNULLFUNC ''decryptText''))"
  "decryptText d (Some c) (Some p) None = decryptHexFileContent d (Some c) (Some p)"
  "export_jwk j None withPrivate use = Inl (OIDC_EARGNULLFUNC ''export_jwk'')"
  "import_jwk j None = Inl (OIDC_EARGNULLFUNC ''import_jwk'')"
  "import_jwk_fromURI j None cert_path = Inl (OIDC_EARGNULLFUNC ''import_jwk_fromURI'')"
  "import_jwk_fromURI j jwk_uri None = Inl (OIDC_EARGNULLFUNC ''import_jwk_fromURI'')"
  "error_kind_of (OIDC_EARGNULLFUNC f) = Some arg_null"
  by (simp_all add: decryptLinesList_def decryptText_def export_jwk_def import_jwk_def
      import_jwk_fromURI_def no_version_is_old)

lemma decryptHexFileContent_NULL:
  "decryptHexFileContent d None password =
     (case strtok_olds d of
        None \<Rightarrow> Segfault
      | Some t \<Rightarrow> decryptHexFileContent d (Some t) password)"
  by (cases "strtok_olds d") (simp_all add: decryptHexFileContent_def oidc_strcopy_def strtok_def)

section \<open>The claims\<close>

text \<open>
  Claim C1. The cipher is the spec's: \<^verbatim>\<open>crypt_encrypt\<close> and \<^verbatim>\<open>crypt_decryptFromList\<close>
  as modelled from the spec, over a cryptographic library that decodes what it encoded,
  encodes to a text without a newline (not an empty one for bytes given), derives a key
  for the parameters it records, and opens what it sealed under the same key and nonce.
  Let the version of the program be a line of its own and at least 2.1.0. Then for every
  text \<open>P\<close> and every password \<open>W\<close>, \<^verbatim>\<open>decryptFileContent\<close> applied with \<open>W\<close> to what
  \<^verbatim>\<open>encryptWithVersionLine\<close> wrote for \<open>P\<close> and \<open>W\<close> returns \<open>P\<close>: the file is the
  envelope, a newline and the version line; it splits into these two lines, the last is
  read as the version, the lines reach the cipher, and the cipher cuts the decoded
  envelope into the salt, the nonce, the parameters and the sealed text it was made of.
\<close>

theorem file_round_trip:
  assumes enc: "crypt_encrypt d = crypt_encrypt_spec lib"
    and dec: "crypt_decryptFromList d = crypt_decryptFromList_spec lib"
    and b64: "\<And>bs. base64url_decode lib (base64url lib bs) = Some bs"
    and line: "\<And>bs. CHR 0x0A \<notin> set (base64url lib bs)"
    and nonempty: "\<And>bs. bs \<noteq> [] \<Longrightarrow> base64url lib bs \<noteq> []"
    and key: "\<And>p salt. kdf lib p salt (kdf_params lib) \<noteq> None"
    and aead: "\<And>k n t. aead_open lib k n (aead_seal lib k n t) = Some t"
    and ver: "versionAtLeast (Some (VERSION d)) MIN_BASE64_VERSION"
    and nl: "CHR 0x0A \<notin> set (VERSION d)"
  shows "decryptFileContent d (Some (encryptWithVersionLine d (Some P) (Some W))) (Some W) =
           Returns (Inr P)"
proof -
  let ?salt = "random_bytes (salt_bytes lib) SALT_LEN"
  let ?nonce = "random_bytes (nonce_bytes lib) NONCE_LEN"
  obtain k where k: "kdf lib W ?salt (kdf_params lib) = Some k"
    using key [of W ?salt] by auto
  let ?env = "base64url lib (?salt @ ?nonce @ kdf_params lib @ aead_seal lib k ?nonce P)"
  let ?vl = "simpleVersionToVersionLine (VERSION d)"
  have c: "crypt_encrypt d (Some P) (Some W) = Inr ?env"
    unfolding enc using b64 k aead by (rule envelope_opens(1))
  have out: "encryptWithVersionLine d (Some P) (Some W) = ?env @ CHR 0x0A # ?vl"
    using c
    by (simp add: encryptWithVersionLine_def encryptText_def oidc_sprintf_s_nl_s_def printf_s_def)
  have "?salt \<noteq> []" by (simp add: random_bytes_def SALT_LEN_def)
  then have env: "?env \<noteq> []" by (intro nonempty) simp
  have vl: "?vl \<noteq> []" "CHR 0x0A \<notin> set ?vl"
    using nl by (auto simp: simpleVersionToVersionLine_def VERSION_LINE_START_def)
  have "tokens [CHR 0x0A] (?env @ CHR 0x0A # ?vl) = tokens [CHR 0x0A] ?env @ [?vl]"
    using vl by (rule tokens_append_line)
  also have "tokens [CHR 0x0A] ?env = [?env]"
    using env line by (rule tokens_single)
  finally have lines: "tokens [CHR 0x0A] (?env @ CHR 0x0A # ?vl) = [?env, ?vl]" by simp
  have last: "list_at [?env, ?vl] (- 1) = Some ?vl" by (simp add: list_at_last)
  have version: "versionLineToSimpleVersion (Some ?vl) = Some (VERSION d)"
    by (simp add: versionLineToSimpleVersion_def simpleVersionToVersionLine_def)
  have "crypt_decryptFromList d [?env, ?vl] (Some W) = Inr P"
    unfolding dec using b64 k aead by (rule envelope_opens(2))
  then show ?thesis
    unfolding out decryptFileContent_def delimitedStringToList_def option.case lines
      decryptLinesList_def Let_def last
    using ver by (simp add: version)
qed

theorem file_round_trip_witness:
  "decryptFileContent stub_cipher_deps
     (Some (encryptWithVersionLine stub_cipher_deps (Some ''secret'') (Some ''pw''))) (Some ''pw'') =
     Returns (Inr ''secret'')
   \<and> encryptWithVersionLine stub_cipher_deps (Some ''secret'') (Some ''pw'') =
     ''ssssssssssssssssnnnnnnnnnnnnnnnnnnnnnnnnm1secretpwssssssssssssssss'' @ [CHR 0x0A]
       @ ''@oidc-agent 2.1.1''
   \<and> decryptFileContent stub_cipher_deps
     (Some (encryptWithVersionLine stub_cipher_deps (Some (''a=b'' @ [CHR 0x0A] @ ''c''))
        (Some ''pw''))) (Some ''pw'') =
     Returns (Inr (''a=b'' @ [CHR 0x0A] @ ''c''))
   \<and> decryptFileContent stub_cipher_deps
     (Some (encryptWithVersionLine stub_cipher_deps (Some ''secret'') (Some ''pw''))) (Some ''pW'') =
     Returns (Inl (Spec_error mac_mismatch))"
proof -
  have enc: "crypt_encrypt stub_cipher_deps = crypt_encrypt_spec stub_crypto_lib"
    and dec: "crypt_decryptFromList stub_cipher_deps = crypt_decryptFromList_spec stub_crypto_lib"
    by (simp_all add: stub_cipher_deps_def)
  have b64: "base64url_decode stub_crypto_lib (base64url stub_crypto_lib bs) = Some bs" for bs
    by (simp add: stub_crypto_lib_def stub_decode_encode)
  have line: "CHR 0x0A \<notin> set (base64url stub_crypto_lib bs)" for bs
    by (simp add: stub_crypto_lib_def stub_encode_line)
  have nonempty: "bs \<noteq> [] \<Longrightarrow> base64url stub_crypto_lib bs \<noteq> []" for bs
    by (simp add: stub_crypto_lib_def stub_encode_nonempty)
  have key: "kdf stub_crypto_lib p salt (kdf_params stub_crypto_lib) \<noteq> None" for p salt
    by (simp add: stub_crypto_lib_def)
  have aead: "aead_open stub_crypto_lib k n t' = Some t"
    if "t' = aead_seal stub_crypto_lib k n t" for k n t t'
    using that by (simp add: stub_crypto_lib_def)
  have ver: "versionAtLeast (Some (VERSION stub_cipher_deps)) MIN_BASE64_VERSION" by code_simp
  have nl: "CHR 0x0A \<notin> set (VERSION stub_cipher_deps)" by code_simp
  have a: "decryptFileContent stub_cipher_deps
      (Some (encryptWithVersionLine stub_cipher_deps (Some P) (Some W))) (Some W) =
      Returns (Inr P)" for P W
    using enc dec b64 line nonempty key aead [OF refl] ver nl by (rule file_round_trip)
  have b: "encryptWithVersionLine stub_cipher_deps (Some ''secret'') (Some ''pw'') =
     ''ssssssssssssssssnnnnnnnnnnnnnnnnnnnnnnnnm1secretpwssssssssssssssss'' @ [CHR 0x0A]
       @ ''@oidc-agent 2.1.1''
   \<and> decryptFileContent stub_cipher_deps
     (Some (encryptWithVersionLine stub_cipher_deps (Some ''secret'') (Some ''pw''))) (Some ''pW'') =
     Returns (Inl (Spec_error mac_mismatch))"
    by code_simp
  show ?thesis using a [of "''secret''" "''pw''"] a [of "''a=b'' @ [CHR 0x0A] @ ''c''" "''pw''"] b
    by blast
qed

text \<open>
  Claim C2. \<^verbatim>\<open>decryptFileContent\<close> splits the content into its lines and chooses by the
  last one: with more than one line, and the last of them a version line
  \<^verbatim>\<open>@oidc-agent <version>\<close> whose version is at least 2.1.0, the lines go to the base64
  decoder \<^verbatim>\<open>crypt_decryptFromList\<close>; in every other case (a single line, a last line
  that is no version line, an older version) the first line goes to the hex decoder
  \<^verbatim>\<open>decryptHexFileContent\<close>. A missing version compares as the version 0.0.0 does.
\<close>

theorem decoder_selected_by_last_line:
  "decryptFileContent d (Some content) password =
     (let lines = tokens [CHR 0x0A] content in
      if 1 < length lines
         \<and> (\<exists>v. last lines = ''@oidc-agent '' @ v
                \<and> version_ge (version_components (Some v)) [2, 1, 0])
      then Returns (crypt_decryptFromList d lines password)
      else decryptHexFileContent d (case lines of [] \<Rightarrow> None | l # ls \<Rightarrow> Some l) password)
   \<and> versionAtLeast None minVersion = versionAtLeast (Some ''0.0.0'') minVersion"
proof -
  have z: "version_components (Some ''0.0.0'') = replicate 3 0"
    by (simp add: version_components_def decimal_def isdigit_def numeral_3_eq_3)
  have a: "versionAtLeast None minVersion = versionAtLeast (Some ''0.0.0'') minVersion"
  proof -
    have n: "version_components None = []" by (simp add: version_components_def)
    show ?thesis
      using version_ge_zeros [OF version_components_nonneg, where n = 3
          and v1 = "Some minVersion"]
      by (simp add: versionAtLeast_def z n)
  qed
  have b: "decryptFileContent d (Some content) password =
     (let lines = tokens [CHR 0x0A] content in
      if 1 < length lines
         \<and> (\<exists>v. last lines = ''@oidc-agent '' @ v
                \<and> version_ge (version_components (Some v)) [2, 1, 0])
      then Returns (crypt_decryptFromList d lines password)
      else decryptHexFileContent d (case lines of [] \<Rightarrow> None | l # ls \<Rightarrow> Some l) password)"
    using no_version_is_old
    by (auto simp: decryptFileContent_def delimitedStringToList_def decryptLinesList_def Let_def
        list_at_first list_at_last modern_version_line no_version_line)
  show ?thesis using a b by simp
qed

theorem decoder_selected_by_last_line_witness:
  "decryptFileContent stub_crypt_deps (Some (''pw.secret'' @ [CHR 0x0A] @ ''@oidc-agent 2.1.1''))
     (Some ''pw'') = Returns (Inr ''secret'')
   \<and> decryptFileContent stub_crypt_deps (Some (''5:aa:bb:cc'' @ [CHR 0x0A] @ ''@oidc-agent 2.0.9''))
     (Some ''pw'') = Returns (Inr ''cc'')
   \<and> decryptFileContent stub_crypt_deps (Some (''5:aa:bb:cc'' @ [CHR 0x0A] @ ''no version''))
     (Some ''pw'') = Returns (Inr ''cc'')
   \<and> decryptFileContent stub_crypt_deps (Some ''5:aa:bb:cc'') (Some ''pw'') = Returns (Inr ''cc'')
   \<and> decryptFileContent stub_crypt_deps (Some ''@oidc-agent 2.1.1'') (Some ''pw'') =
     Returns (Inl OIDC_ECRYPM)"
proof -
  have e: "decryptFileContent stub_crypt_deps
       (Some (''pw.secret'' @ [CHR 0x0A] @ ''@oidc-agent 2.1.1'')) (Some ''pw'') =
       Returns (Inr ''secret'')
   \<and> decryptFileContent stub_crypt_deps (Some (''5:aa:bb:cc'' @ [CHR 0x0A] @ ''@oidc-agent 2.0.9''))
     (Some ''pw'') = Returns (Inr ''cc'')
   \<and> decryptFileContent stub_crypt_deps (Some (''5:aa:bb:cc'' @ [CHR 0x0A] @ ''no version''))
     (Some ''pw'') = Returns (Inr ''cc'')
   \<and> decryptHexFileContent stub_crypt_deps (Some ''5:aa:bb:cc'') (Some ''pw'') =
     Returns (Inr ''cc'')
   \<and> decryptFileContent stub_crypt_deps (Some ''@oidc-agent 2.1.1'') (Some ''pw'') =
     Returns (Inl OIDC_ECRYPM)"
    by code_simp
  have l: "tokens [CHR 0x0A] ''5:aa:bb:cc'' = [''5:aa:bb:cc'']" by code_simp
  have "decryptFileContent stub_crypt_deps (Some ''5:aa:bb:cc'') (Some ''pw'') =
      decryptHexFileContent stub_crypt_deps (Some ''5:aa:bb:cc'') (Some ''pw'')"
    using decoder_selected_by_last_line [of stub_crypt_deps "''5:aa:bb:cc''" "Some ''pw''" "''2.1.0''"]
    by (simp add: l)
  then show ?thesis using e by simp
qed

text \<open>
  Claim C3, as the code has it. When the \<^verbatim>\<open>keys\<close> array of the fetched document holds
  exactly one key, \<^verbatim>\<open>import_jwk_fromURI\<close> returns what \<^verbatim>\<open>import_jwk\<close> returns for that
  key, so the key itself when cjose imports it. When the array holds more than one key
  it returns NULL with the code \<^verbatim>\<open>OIDC_NOTIMPL\<close>, the spec's kind \<open>not_implemented\<close>.
\<close>

theorem sole_key_imported:
  assumes "httpsGET d (Some uri) None (Some cert) = Inr res"
    and "getJSONValueFromString d (Some res) ''keys'' = Some ka"
    and "JSONArrayStringToList d (Some ka) = Some ks"
  shows "(ks = [k] \<longrightarrow> import_jwk_fromURI d (Some uri) (Some cert) = import_jwk d (Some k))
         \<and> (ks = [k] \<and> cjose_jwk_import d k (length k) = Inr jwk \<longrightarrow>
              import_jwk_fromURI d (Some uri) (Some cert) = Inr jwk)
         \<and> (1 < length ks \<longrightarrow> import_jwk_fromURI d (Some uri) (Some cert) = Inl OIDC_NOTIMPL)
         \<and> error_kind_of OIDC_NOTIMPL = Some not_implemented"
  using assms by (auto simp: import_jwk_fromURI_def listValid_def list_at_def import_jwk_def)

theorem sole_key_imported_witness:
  "import_jwk_fromURI stub_jwk_deps (Some ''https://idp/one'') (Some ''/etc/ssl/certs'') =
     Inr ''k1''"
proof -
  have g: "httpsGET stub_jwk_deps (Some ''https://idp/one'') None (Some ''/etc/ssl/certs'') =
      Inr ''keys=k1''"
    by (simp add: stub_jwk_deps_def)
  have k: "getJSONValueFromString stub_jwk_deps (Some ''keys=k1'') ''keys'' = Some ''k1''"
    by (simp add: stub_jwk_deps_def)
  have l: "JSONArrayStringToList stub_jwk_deps (Some ''k1'') = Some [''k1'']"
    by code_simp
  have i: "cjose_jwk_import stub_jwk_deps ''k1'' (length ''k1'') = Inr ''k1''"
    by (simp add: stub_jwk_deps_def)
  show ?thesis using sole_key_imported [OF g k l, of "''k1''" "''k1''"] i by blast
qed

text \<open>
  Claim C3 as stated fails: for a document with the two keys \<^verbatim>\<open>k1\<close> and \<^verbatim>\<open>k2\<close> the
  code set is \<^verbatim>\<open>OIDC_NOTIMPL\<close>, which is not the kind \<open>jwks_ambiguous\<close>.
\<close>

theorem two_keys_not_ambiguous:
  "import_jwk_fromURI stub_jwk_deps (Some ''https://idp/two'') (Some ''/etc/ssl/certs'') =
     Inl OIDC_NOTIMPL
   \<and> error_kind_of OIDC_NOTIMPL \<noteq> Some jwks_ambiguous"
  by code_simp

text \<open>
  Claim C4. Whenever \<^verbatim>\<open>randomString(len)\<close> returns, \<open>len\<close> is positive and the result
  has exactly \<open>len\<close> characters, the first of them alphanumeric: it is a buffer that was
  drawn, after the least number of passes through the loop, fewer than \<open>len\<close>, that
  bring an alphanumeric character to its front, and no buffer drawn before it has such a
  rotation. Conversely the first such rotation of the first such buffer is what the call
  returns. When none of the \<open>len\<close> rotations the loop tries has an alphanumeric first
  character, the buffer is dropped and the function starts again with a fresh one. It
  never returns when no buffer drawn ever holds an alphanumeric character (so not for the
  length 0), and it returns when one of them does.
\<close>

theorem randomString_first_char:
  "(randomString rnd call len = Some r \<longrightarrow>
      0 < len \<and> length r = len \<and> isalnum (str0 r)
      \<and> (\<exists>j. \<exists>s<len.
            r = shifted len s (randomFillBase64UrlSafe (rnd (call + j)) len)
            \<and> (\<forall>t < s. \<not> isalnum (str0 (shifted len t
                   (randomFillBase64UrlSafe (rnd (call + j)) len))))
            \<and> (\<forall>i<j. \<forall>t<len. \<not> isalnum (str0 (shifted len t
                   (randomFillBase64UrlSafe (rnd (call + i)) len))))))
   \<and> ((\<forall>i<j. \<forall>t<len. \<not> isalnum (str0 (shifted len t
             (randomFillBase64UrlSafe (rnd (call + i)) len))))
       \<and> s < len
       \<and> isalnum (str0 (shifted len s (randomFillBase64UrlSafe (rnd (call + j)) len)))
       \<and> (\<forall>t < s. \<not> isalnum (str0 (shifted len t
             (randomFillBase64UrlSafe (rnd (call + j)) len)))) \<longrightarrow>
       randomString rnd call len =
         Some (shifted len s (randomFillBase64UrlSafe (rnd (call + j)) len)))
   \<and> ((\<forall>t<len. \<not> isalnum (str0 (shifted len t (randomFillBase64UrlSafe (rnd call) len)))) \<longrightarrow>
        randomString rnd call len = randomString rnd (Suc call) len)
   \<and> ((\<forall>j. \<forall>k<len. \<not> isalnum (rnd (call + j) k)) \<longrightarrow> randomString rnd call len = None)
   \<and> ((\<exists>j. \<exists>k<len. isalnum (rnd (call + j) k)) \<longrightarrow> (\<exists>r. randomString rnd call len = Some r))"
proof (intro conjI impI)
  assume a: "randomString rnd call len = Some r"
  from randomString_result [OF a] obtain j s where s: "s < len"
    and r: "r = shifted len s (randomFillBase64UrlSafe (rnd (call + j)) len)" "isalnum (str0 r)"
    and rest: "\<forall>t < s. \<not> isalnum (str0 (shifted len t
                   (randomFillBase64UrlSafe (rnd (call + j)) len)))"
      "\<forall>i<j. \<forall>t<len. \<not> isalnum (str0 (shifted len t
                   (randomFillBase64UrlSafe (rnd (call + i)) len)))"
    by blast
  show "0 < len" using s by simp
  show "length r = len" by (simp add: r(1) length_shifted randomFillBase64UrlSafe_def)
  show "isalnum (str0 r)" by (rule r(2))
  show "\<exists>j. \<exists>s<len.
            r = shifted len s (randomFillBase64UrlSafe (rnd (call + j)) len)
            \<and> (\<forall>t < s. \<not> isalnum (str0 (shifted len t
                   (randomFillBase64UrlSafe (rnd (call + j)) len))))
            \<and> (\<forall>i<j. \<forall>t<len. \<not> isalnum (str0 (shifted len t
                   (randomFillBase64UrlSafe (rnd (call + i)) len))))"
    using s r(1) rest by blast
next
  assume "(\<forall>i<j. \<forall>t<len. \<not> isalnum (str0 (shifted len t
             (randomFillBase64UrlSafe (rnd (call + i)) len))))
       \<and> s < len
       \<and> isalnum (str0 (shifted len s (randomFillBase64UrlSafe (rnd (call + j)) len)))
       \<and> (\<forall>t < s. \<not> isalnum (str0 (shifted len t
             (randomFillBase64UrlSafe (rnd (call + j)) len))))"
  then show "randomString rnd call len =
         Some (shifted len s (randomFillBase64UrlSafe (rnd (call + j)) len))"
    by (intro randomString_at) simp_all
next
  assume "\<forall>t<len. \<not> isalnum (str0 (shifted len t (randomFillBase64UrlSafe (rnd call) len)))"
  then show "randomString rnd call len = randomString rnd (Suc call) len"
    by (rule randomString_retries)
next
  assume "\<forall>j. \<forall>k<len. \<not> isalnum (rnd (call + j) k)"
  then show "randomString rnd call len = None" by (rule randomString_never)
next
  assume "\<exists>j. \<exists>k<len. isalnum (rnd (call + j) k)"
  then obtain j where "\<exists>k<len. isalnum (rnd (call + j) k)" by blast
  then show "\<exists>r. randomString rnd call len = Some r" by (rule randomString_returns)
qed


theorem randomString_first_char_witness:
  "randomString stub_rnd 0 3 = Some ''a_-''
   \<and> randomFillBase64UrlSafe (stub_rnd 0) 3 = ''___''
   \<and> randomFillBase64UrlSafe (stub_rnd 1) 3 = ''-a_''
   \<and> shifted 3 1 ''-a_'' = ''_-a''
   \<and> shifted 3 2 ''-a_'' = ''a_-''
   \<and> randomString (\<lambda>call k. CHR ''_'') 0 3 = None"
proof -
  have b: "randomFillBase64UrlSafe (stub_rnd 0) 3 = ''___''
      \<and> randomFillBase64UrlSafe (stub_rnd 1) 3 = ''-a_''
      \<and> shifted 3 1 ''-a_'' = ''_-a''
      \<and> shifted 3 2 ''-a_'' = ''a_-''"
    by code_simp
  have first: "\<not> isalnum (str0 (shifted 3 0 (randomFillBase64UrlSafe (stub_rnd (0 + 0)) 3)))
      \<and> \<not> isalnum (str0 (shifted 3 1 (randomFillBase64UrlSafe (stub_rnd (0 + 0)) 3)))
      \<and> \<not> isalnum (str0 (shifted 3 2 (randomFillBase64UrlSafe (stub_rnd (0 + 0)) 3)))"
    by code_simp
  have second: "\<not> isalnum (str0 (shifted 3 0 (randomFillBase64UrlSafe (stub_rnd (0 + 1)) 3)))
      \<and> \<not> isalnum (str0 (shifted 3 1 (randomFillBase64UrlSafe (stub_rnd (0 + 1)) 3)))
      \<and> isalnum (str0 (shifted 3 2 (randomFillBase64UrlSafe (stub_rnd (0 + 1)) 3)))
      \<and> shifted 3 2 (randomFillBase64UrlSafe (stub_rnd (0 + 1)) 3) = ''a_-''"
    by code_simp
  have h1: "\<forall>i<1. \<forall>t<3. \<not> isalnum (str0 (shifted 3 t
      (randomFillBase64UrlSafe (stub_rnd (0 + i)) 3)))"
  proof (intro allI impI)
    fix i t :: nat assume "i < 1" "t < 3"
    then have "i = 0" "t = 0 \<or> t = 1 \<or> t = 2" by linarith+
    with first show "\<not> isalnum (str0 (shifted 3 t
        (randomFillBase64UrlSafe (stub_rnd (0 + i)) 3)))"
      by blast
  qed
  have h2: "\<forall>t < 2. \<not> isalnum (str0 (shifted 3 t
      (randomFillBase64UrlSafe (stub_rnd (0 + 1)) 3)))"
  proof (intro allI impI)
    fix t :: nat assume "t < 2"
    then have "t = 0 \<or> t = 1" by linarith
    with second show "\<not> isalnum (str0 (shifted 3 t
        (randomFillBase64UrlSafe (stub_rnd (0 + 1)) 3)))"
      by blast
  qed
  have h3: "(2::nat) < 3" by simp
  note at = randomString_first_char [where rnd = stub_rnd and call = 0 and len = 3
      and j = 1 and s = 2, THEN conjunct2, THEN conjunct1, THEN mp]
  have "randomString stub_rnd 0 3 =
      Some (shifted 3 2 (randomFillBase64UrlSafe (stub_rnd (0 + 1)) 3))"
    by (rule at) (intro conjI h1 h2 h3 second [THEN conjunct2, THEN conjunct2, THEN conjunct1])
  then have r: "randomString stub_rnd 0 3 = Some ''a_-''"
    by (simp only: second [THEN conjunct2, THEN conjunct2, THEN conjunct2])
  have u: "\<forall>j. \<forall>k<3. \<not> isalnum ((\<lambda>call k. CHR ''_'') (0 + j) k)"
    by (simp add: isalnum_def isdigit_def isupper_def islower_def)
  note never = randomString_first_char [where rnd = "\<lambda>call k. CHR ''_''" and call = 0
      and len = 3, THEN conjunct2, THEN conjunct2, THEN conjunct2, THEN conjunct1, THEN mp]
  have n: "randomString (\<lambda>call k. CHR ''_'') 0 3 = None"
    by (rule never) (rule u)
  show ?thesis by (intro conjI r n b [THEN conjunct1] b [THEN conjunct2, THEN conjunct1]
      b [THEN conjunct2, THEN conjunct2, THEN conjunct1]
      b [THEN conjunct2, THEN conjunct2, THEN conjunct2])
qed

text \<open>
  Claim C5, as the code has it. When \<^verbatim>\<open>encryptText\<close> returns the envelope \<open>c\<close>,
  \<^verbatim>\<open>encryptWithVersionLine\<close> returns \<open>c\<close>, a newline and the version line
  \<^verbatim>\<open>@oidc-agent <version>\<close> of the program's version, and nothing after it; the lines of
  the result are the lines of the envelope and then the version line.
\<close>

theorem save_format:
  assumes "encryptText d text password = Inr c"
  shows "encryptWithVersionLine d text password = c @ [CHR 0x0A] @ ''@oidc-agent '' @ VERSION d
         \<and> (CHR 0x0A \<notin> set (VERSION d) \<longrightarrow>
              tokens [CHR 0x0A] (encryptWithVersionLine d text password) =
              tokens [CHR 0x0A] c @ [''@oidc-agent '' @ VERSION d])"
proof -
  have out: "encryptWithVersionLine d text password =
      c @ CHR 0x0A # (''@oidc-agent '' @ VERSION d)"
    using assms
    by (simp add: encryptWithVersionLine_def oidc_sprintf_s_nl_s_def printf_s_def
        simpleVersionToVersionLine_def VERSION_LINE_START_def)
  have "tokens [CHR 0x0A] (c @ CHR 0x0A # (''@oidc-agent '' @ VERSION d)) =
      tokens [CHR 0x0A] c @ [''@oidc-agent '' @ VERSION d]"
    if "CHR 0x0A \<notin> set (VERSION d)"
    using that by (intro tokens_append_line) auto
  then show ?thesis by (simp add: out)
qed

theorem save_format_witness:
  "encryptWithVersionLine stub_crypt_deps (Some ''secret'') (Some ''pw'') =
     ''pw.secret'' @ [CHR 0x0A] @ ''@oidc-agent '' @ ''2.1.1''
   \<and> tokens [CHR 0x0A] (encryptWithVersionLine stub_crypt_deps (Some ''secret'') (Some ''pw'')) =
     [''pw.secret'', ''@oidc-agent 2.1.1'']"
proof -
  have enc: "encryptText stub_crypt_deps (Some ''secret'') (Some ''pw'') = Inr ''pw.secret''"
    by (simp add: encryptText_def stub_crypt_deps_def)
  have v: "VERSION stub_crypt_deps = ''2.1.1''" by (simp add: stub_crypt_deps_def)
  have l: "tokens [CHR 0x0A] ''pw.secret'' = [''pw.secret'']" by code_simp
  have n: "CHR 0x0A \<notin> set (VERSION stub_crypt_deps)" by (simp add: v)
  from save_format [OF enc] n
  have a: "encryptWithVersionLine stub_crypt_deps (Some ''secret'') (Some ''pw'') =
      ''pw.secret'' @ [CHR 0x0A] @ ''@oidc-agent '' @ VERSION stub_crypt_deps"
    and b: "tokens [CHR 0x0A] (encryptWithVersionLine stub_crypt_deps (Some ''secret'') (Some ''pw'')) =
      tokens [CHR 0x0A] ''pw.secret'' @ [''@oidc-agent '' @ VERSION stub_crypt_deps]"
    by blast+
  show ?thesis
  proof (intro conjI)
    show "encryptWithVersionLine stub_crypt_deps (Some ''secret'') (Some ''pw'') =
        ''pw.secret'' @ [CHR 0x0A] @ ''@oidc-agent '' @ ''2.1.1''"
      using a by (simp add: v)
    show "tokens [CHR 0x0A] (encryptWithVersionLine stub_crypt_deps (Some ''secret'') (Some ''pw'')) =
        [''pw.secret'', ''@oidc-agent 2.1.1'']"
      using b by (simp add: v l)
  qed
qed

text \<open>
  Claim C5 as stated fails: what \<^verbatim>\<open>encryptWithVersionLine\<close> returns for the text
  \<^verbatim>\<open>secret\<close> and the password \<^verbatim>\<open>pw\<close> is not the envelope, a newline, the version line and
  a trailing newline; its last character is the last character of the version.
\<close>

theorem save_has_no_trailing_newline:
  "encryptWithVersionLine stub_crypt_deps (Some ''secret'') (Some ''pw'') \<noteq>
     ''pw.secret'' @ [CHR 0x0A] @ ''@oidc-agent 2.1.1'' @ [CHR 0x0A]
   \<and> last (encryptWithVersionLine stub_crypt_deps (Some ''secret'') (Some ''pw'')) = CHR ''1''"
  by code_simp

text \<open>
  Claim C6, as the code has it. The fields that count are the tokens of the text, the
  non-empty runs of characters between colons, as \<^verbatim>\<open>strtok\<close> yields them: an empty
  field is skipped and the fields after it move up. A text with fewer than four tokens,
  or whose first token \<^verbatim>\<open>strToInt\<close> turns into 0, makes \<^verbatim>\<open>decryptHexFileContent\<close>
  return NULL with the code \<^verbatim>\<open>OIDC_ECRYPM\<close>, the spec's kind \<open>format_invalid\<close>, whatever
  the cipher is. Every other text reaches the hex cipher with its first four tokens.
\<close>

theorem malformed_hex_rejected:
  "decryptHexFileContent d (Some s) password =
     Returns
       (if length (tokens '':'' s) < 4 \<or> strToInt d (list_at (tokens '':'' s) 0) = 0
        then Inl OIDC_ECRYPM
        else crypt_decrypt_hex d (list_at (tokens '':'' s) 3)
               (scast (strToInt d (list_at (tokens '':'' s) 0))) password
               (list_at (tokens '':'' s) 2) (list_at (tokens '':'' s) 1))
   \<and> error_kind_of OIDC_ECRYPM = Some format_invalid"
  by (auto simp: decryptHexFileContent_tokens Let_def scast_zero_iff)

theorem malformed_hex_rejected_witness:
  "decryptHexFileContent stub_crypt_deps (Some ''0:aa:bb:cc'') (Some ''pw'') =
     Returns (Inl OIDC_ECRYPM)
   \<and> decryptHexFileContent stub_crypt_deps (Some ''len:aa:bb:cc'') (Some ''pw'') =
     Returns (Inl OIDC_ECRYPM)
   \<and> decryptHexFileContent stub_crypt_deps (Some ''5:aa:bb'') (Some ''pw'') =
     Returns (Inl OIDC_ECRYPM)
   \<and> decryptHexFileContent stub_crypt_deps (Some ''5::bb:cc'') (Some ''pw'') =
     Returns (Inl OIDC_ECRYPM)
   \<and> decryptHexFileContent stub_crypt_deps (Some []) (Some ''pw'') = Returns (Inl OIDC_ECRYPM)
   \<and> decryptHexFileContent stub_crypt_deps (Some ''5:aa:bb:cc'') (Some ''pw'') =
     Returns (Inr ''cc'')"
proof -
  have z: "length (tokens '':'' ''0:aa:bb:cc'') < 4
      \<or> strToInt stub_crypt_deps (list_at (tokens '':'' ''0:aa:bb:cc'') 0) = 0"
    by code_simp
  have rest: "decryptHexFileContent stub_crypt_deps (Some ''len:aa:bb:cc'') (Some ''pw'') =
     Returns (Inl OIDC_ECRYPM)
   \<and> decryptHexFileContent stub_crypt_deps (Some ''5:aa:bb'') (Some ''pw'') =
     Returns (Inl OIDC_ECRYPM)
   \<and> decryptHexFileContent stub_crypt_deps (Some ''5::bb:cc'') (Some ''pw'') =
     Returns (Inl OIDC_ECRYPM)
   \<and> decryptHexFileContent stub_crypt_deps (Some []) (Some ''pw'') = Returns (Inl OIDC_ECRYPM)
   \<and> decryptHexFileContent stub_crypt_deps (Some ''5:aa:bb:cc'') (Some ''pw'') =
     Returns (Inr ''cc'')"
    by code_simp
  have "decryptHexFileContent stub_crypt_deps (Some ''0:aa:bb:cc'') (Some ''pw'') =
      Returns (Inl OIDC_ECRYPM)"
    using malformed_hex_rejected [of stub_crypt_deps "''0:aa:bb:cc''" "Some ''pw''"] z
    by (simp only: if_True)
  then show ?thesis using rest by blast
qed

text \<open>
  Claim C6 as stated fails: the text \<^verbatim>\<open>5::bb:cc:dd\<close> has an empty salt field and the
  text \<^verbatim>\<open>:5:aa:bb:cc\<close> an empty length field, so neither has the legacy shape, and
  \<^verbatim>\<open>decryptHexFileContent\<close> rejects neither: the hex cipher is called with the tokens
  that follow and its result is returned.
\<close>

theorem empty_field_accepted:
  "\<not> legacy_shape ''5::bb:cc:dd''
   \<and> split_on CHR '':'' ''5::bb:cc:dd'' = [''5'', [], ''bb'', ''cc'', ''dd'']
   \<and> decryptHexFileContent stub_crypt_deps (Some ''5::bb:cc:dd'') (Some ''pw'') =
     Returns (Inr ''dd'')
   \<and> \<not> legacy_shape '':5:aa:bb:cc''
   \<and> decryptHexFileContent stub_crypt_deps (Some '':5:aa:bb:cc'') (Some ''pw'') =
     Returns (Inr ''cc'')
   \<and> legacy_shape ''5:aa:bb:cc''"
  by code_simp

text \<open>
  Claim C7. For a key that cjose serialises to the text of a JSON object,
  \<^verbatim>\<open>export_jwk_sig\<close> returns the print of that object with the member \<^verbatim>\<open>use\<close> of value
  \<^verbatim>\<open>sig\<close> added, and \<^verbatim>\<open>export_jwk_enc\<close> the same with the value \<^verbatim>\<open>enc\<close>.
\<close>

theorem export_adds_use:
  assumes "cjose_jwk_to_json d k (withPrivate \<noteq> 0) = Inr tmp"
    and "stringToJson d (Some tmp) = Some (JObject members)"
  shows "export_jwk_sig d (Some k) withPrivate =
           jsonToStringUnformatted d (Some (JObject (members @ [(''use'', JString ''sig'')])))
         \<and> export_jwk_enc d (Some k) withPrivate =
           jsonToStringUnformatted d (Some (JObject (members @ [(''use'', JString ''enc'')])))"
  using assms
  by (simp add: export_jwk_sig_def export_jwk_enc_def export_jwk_def jsonAddStringValue_def
      JWK_USE_SIG_def JWK_USE_ENC_def)

theorem export_adds_use_witness:
  "export_jwk_sig stub_jwk_deps (Some ''RSA'') 0 = Inr ''kty=RSA;use=sig;''
   \<and> export_jwk_enc stub_jwk_deps (Some ''RSA'') 0 = Inr ''kty=RSA;use=enc;''"
proof -
  have t: "cjose_jwk_to_json stub_jwk_deps ''RSA'' ((0::int) \<noteq> 0) = Inr ''RSA''"
    by (simp add: stub_jwk_deps_def)
  have j: "stringToJson stub_jwk_deps (Some ''RSA'') = Some (JObject [(''kty'', JString ''RSA'')])"
    by (simp add: stub_jwk_deps_def)
  have p: "jsonToStringUnformatted stub_jwk_deps (Some (JObject ms)) = Inr (stub_print ms)" for ms
    by (simp add: stub_jwk_deps_def)
  show ?thesis using export_adds_use [OF t j] by (simp add: p)
qed

text \<open>
  Claim C8. When the fetched document has no \<^verbatim>\<open>keys\<close> member, or its \<^verbatim>\<open>keys\<close> array
  cannot be read as a list or is empty, \<^verbatim>\<open>import_jwk_fromURI\<close> returns NULL with the
  code \<^verbatim>\<open>OIDC_EJWKURINO\<close>. A document with more than one key gives another code,
  \<^verbatim>\<open>OIDC_NOTIMPL\<close>.
\<close>

theorem no_jwk_at_uri:
  assumes "httpsGET d (Some uri) None (Some cert) = Inr res"
  shows "(getJSONValueFromString d (Some res) ''keys'' = None \<longrightarrow>
            import_jwk_fromURI d (Some uri) (Some cert) = Inl OIDC_EJWKURINO)
         \<and> (getJSONValueFromString d (Some res) ''keys'' = Some ka
              \<and> (JSONArrayStringToList d (Some ka) = None
                   \<or> JSONArrayStringToList d (Some ka) = Some []) \<longrightarrow>
            import_jwk_fromURI d (Some uri) (Some cert) = Inl OIDC_EJWKURINO)
         \<and> (getJSONValueFromString d (Some res) ''keys'' = Some ka
              \<and> JSONArrayStringToList d (Some ka) = Some ks \<and> 1 < length ks \<longrightarrow>
            import_jwk_fromURI d (Some uri) (Some cert) = Inl OIDC_NOTIMPL)
         \<and> OIDC_EJWKURINO \<noteq> OIDC_NOTIMPL"
  using assms by (auto simp: import_jwk_fromURI_def listValid_def)

theorem no_jwk_at_uri_witness:
  "import_jwk_fromURI stub_jwk_deps (Some ''https://idp/other'') (Some ''/etc/ssl/certs'') =
     Inl OIDC_EJWKURINO
   \<and> import_jwk_fromURI stub_jwk_deps (Some ''https://idp/empty'') (Some ''/etc/ssl/certs'') =
     Inl OIDC_EJWKURINO
   \<and> import_jwk_fromURI stub_jwk_deps (Some ''https://idp/two'') (Some ''/etc/ssl/certs'') =
     Inl OIDC_NOTIMPL"
proof -
  have g: "httpsGET stub_jwk_deps (Some ''https://idp/other'') None (Some ''/etc/ssl/certs'') =
      Inr ''issuer=idp''"
    by (simp add: stub_jwk_deps_def)
  have k: "getJSONValueFromString stub_jwk_deps (Some ''issuer=idp'') ''keys'' = None"
    by (simp add: stub_jwk_deps_def)
  have g0: "httpsGET stub_jwk_deps (Some ''https://idp/empty'') None (Some ''/etc/ssl/certs'') =
      Inr ''keys=''"
    by (simp add: stub_jwk_deps_def)
  have k0: "getJSONValueFromString stub_jwk_deps (Some ''keys='') ''keys'' = Some []"
    by (simp add: stub_jwk_deps_def)
  have l0: "JSONArrayStringToList stub_jwk_deps (Some []) = Some []"
    by code_simp
  have g2: "httpsGET stub_jwk_deps (Some ''https://idp/two'') None (Some ''/etc/ssl/certs'') =
      Inr ''keys=k1,k2''"
    by (simp add: stub_jwk_deps_def)
  have k2: "getJSONValueFromString stub_jwk_deps (Some ''keys=k1,k2'') ''keys'' = Some ''k1,k2''"
    by (simp add: stub_jwk_deps_def)
  have l2: "JSONArrayStringToList stub_jwk_deps (Some ''k1,k2'') = Some [''k1'', ''k2'']"
    by code_simp
  have n2: "1 < length [''k1'', ''k2'']" by simp
  show ?thesis
    using no_jwk_at_uri [OF g] k no_jwk_at_uri [OF g0, of "[]"] k0 l0
      no_jwk_at_uri [OF g2, of "''k1,k2''" "[''k1'', ''k2'']"] k2 l2 n2
    by blast
qed

text \<open>
  Claim C9. The claim fails on two operations that have no check of their own.
  \<^verbatim>\<open>encryptWithVersionLine\<close> with a NULL text formats whatever \<^verbatim>\<open>encryptText\<close>
  returned, \<^verbatim>\<open>(null)\<close> for NULL, and returns that text followed by a newline and the
  version line: it does not return NULL. \<^verbatim>\<open>decryptHexFileContent\<close> with a NULL cipher
  hands NULL to \<^verbatim>\<open>strtok\<close>, which reads through its save pointer: the process dies
  when the pointer is NULL, and otherwise the text found there is decoded in place of
  the cipher. The operations the claim lists do reject a NULL argument, as the lemma
  \<open>null_checks\<close> has it.
\<close>

theorem null_text_not_rejected:
  "encryptWithVersionLine stub_crypt_deps None (Some ''pw'') =
     ''(null)'' @ [CHR 0x0A] @ ''@oidc-agent 2.1.1''
   \<and> encryptWithVersionLine d None password =
     (case encryptText d None password of Inl e \<Rightarrow> ''(null)'' | Inr c \<Rightarrow> c)
       @ [CHR 0x0A] @ ''@oidc-agent '' @ VERSION d
   \<and> decryptHexFileContent stub_crypt_deps None (Some ''pw'') = Segfault
   \<and> decryptHexFileContent d None password =
     (case strtok_olds d of
        None \<Rightarrow> Segfault
      | Some t \<Rightarrow> decryptHexFileContent d (Some t) password)"
proof -
  have a: "encryptWithVersionLine stub_crypt_deps None (Some ''pw'') =
     ''(null)'' @ [CHR 0x0A] @ ''@oidc-agent 2.1.1''
     \<and> decryptHexFileContent stub_crypt_deps None (Some ''pw'') = Segfault"
    by code_simp
  have b: "encryptWithVersionLine d None password =
     (case encryptText d None password of Inl e \<Rightarrow> ''(null)'' | Inr c \<Rightarrow> c)
       @ [CHR 0x0A] @ ''@oidc-agent '' @ VERSION d"
    by (simp add: encryptWithVersionLine_def oidc_sprintf_s_nl_s_def printf_s_def
        simpleVersionToVersionLine_def VERSION_LINE_START_def split: sum.splits)
  show ?thesis using a b decryptHexFileContent_NULL [of d password] by simp
qed

text \<open>
  Claim C10. A positional argument is stored when it is the first and ends the program
  with the usage message otherwise; \<^verbatim>\<open>--list\<close>, \<^verbatim>\<open>--lock\<close>, \<^verbatim>\<open>--unlock\<close> and
  \<^verbatim>\<open>--remove-all\<close> (the keys \<^verbatim>\<open>l\<close>, \<^verbatim>\<open>x\<close>, \<^verbatim>\<open>X\<close>, \<^verbatim>\<open>R\<close>) set their flags; at the
  end of the command line the parser asks for a positional argument unless one of these
  four flags is set. So a command line of options of the table and positional arguments,
  its lifetimes starting with a digit, is accepted exactly when it has one positional
  argument, or none and one of the four options; every other one ends with the usage
  message. The argument of \<^verbatim>\<open>--lifetime\<close> is refused with \<^verbatim>\<open>ARGP_ERR_UNKNOWN\<close> unless it
  starts with a digit, which ends the program with an error message, and otherwise the
  lifetime is its \<^verbatim>\<open>atoi\<close>: the value of the leading digits (when that fits an
  \<^verbatim>\<open>int\<close>), whatever follows them.
\<close>

theorem oidc_add_arguments:
  "parse_opt ARGP_KEY_ARG arg state =
     (if 1 \<le> arg_num state then Usage_exit
      else Returned 0 (state\<lparr>input := (input state)\<lparr>args0 := arg\<rparr>\<rparr>))
   \<and> parse_opt ARGP_KEY_END arg state =
     (if list_opt (input state) \<noteq> 0 \<or> lock (input state) \<noteq> 0 \<or>
         unlock (input state) \<noteq> 0 \<or> removeAll_opt (input state) \<noteq> 0 \<or>
         1 \<le> arg_num state
      then Returned 0 state else Usage_exit)
   \<and> parse_opt (key_of CHR ''l'') arg state =
       Returned 0 (state\<lparr>input := (input state)\<lparr>list_opt := 1\<rparr>\<rparr>)
   \<and> parse_opt (key_of CHR ''x'') arg state =
       Returned 0 (state\<lparr>input := (input state)\<lparr>lock := 1\<rparr>\<rparr>)
   \<and> parse_opt (key_of CHR ''X'') arg state =
       Returned 0 (state\<lparr>input := (input state)\<lparr>unlock := 1\<rparr>\<rparr>)
   \<and> parse_opt (key_of CHR ''R'') arg state =
       Returned 0 (state\<lparr>input := (input state)\<lparr>removeAll_opt := 1\<rparr>\<rparr>)
   \<and> option_key ''list'' = Some (key_of CHR ''l'')
   \<and> option_key ''lock'' = Some (key_of CHR ''x'')
   \<and> option_key ''unlock'' = Some (key_of CHR ''X'')
   \<and> option_key ''remove-all'' = Some (key_of CHR ''R'')
   \<and> option_key ''lifetime'' = Some (key_of CHR ''t'')
   \<and> (list_all supplied evs
        \<and> (\<forall>a. (key_of CHR ''t'', Some a) \<in> set evs \<longrightarrow> isdigit (str0 a)) \<longrightarrow>
        (if length (positional evs) = 1
            \<or> (positional evs = [] \<and> (\<exists>e\<in>set evs. fst e \<in> set standalone_keys))
         then \<exists>state'. argp_parse evs \<lparr>input = initArguments, arg_num = 0\<rparr> = Returned 0 state'
                \<and> arg_num state' = length (positional evs)
                \<and> args0 (input state') =
                    (case positional evs of [] \<Rightarrow> None | e # es \<Rightarrow> snd e)
         else argp_parse evs \<lparr>input = initArguments, arg_num = 0\<rparr> = Usage_exit))
   \<and> parse_opt (key_of CHR ''t'') (Some a) state =
     (if isdigit (str0 a)
      then Returned 0
             (state\<lparr>input := (input state)\<lparr>lifetime_opt :=
                \<lparr>lifetime = atoi a, argProvided = 1\<rparr>\<rparr>\<rparr>)
      else Returned ARGP_ERR_UNKNOWN state)
   \<and> (\<not> isdigit (str0 a) \<longrightarrow>
        argp_parse ((key_of CHR ''t'', Some a) # evs) state = Error_exit)
   \<and> (ds \<noteq> [] \<and> (\<forall>c\<in>set ds. isdigit c) \<and> \<not> isdigit (str0 rest) \<and> decimal ds < 2 ^ 31 \<longrightarrow>
        atoi (ds @ rest) = decimal ds)"
proof -
  have run: "if length (positional evs) = 1
            \<or> (positional evs = [] \<and> (\<exists>e\<in>set evs. fst e \<in> set standalone_keys))
         then \<exists>state'. argp_parse evs \<lparr>input = initArguments, arg_num = 0\<rparr> = Returned 0 state'
                \<and> arg_num state' = length (positional evs)
                \<and> args0 (input state') =
                    (case positional evs of [] \<Rightarrow> None | e # es \<Rightarrow> snd e)
         else argp_parse evs \<lparr>input = initArguments, arg_num = 0\<rparr> = Usage_exit"
    if "list_all supplied evs"
      "\<forall>a. (key_of CHR ''t'', Some a) \<in> set evs \<longrightarrow> isdigit (str0 a)"
    using that by (rule argp_parse_command_line)
  have bad: "argp_parse ((key_of CHR ''t'', Some a) # evs) state = Error_exit"
    if "\<not> isdigit (str0 a)"
    using that by (rule argp_parse_bad_lifetime)
  have at: "atoi (ds @ rest) = decimal ds"
    if "ds \<noteq> [] \<and> (\<forall>c\<in>set ds. isdigit c) \<and> \<not> isdigit (str0 rest) \<and> decimal ds < 2 ^ 31"
    using that by (intro atoi_digits) simp_all
  show ?thesis
    by (intro conjI impI parse_opt_arg parse_opt_end parse_opt_flags option_keys
        parse_opt_lifetime run bad at; (elim conjE)?; assumption?)
qed


theorem oidc_add_arguments_witness:
  "argp_parse [(key_of CHR ''x'', None)] \<lparr>input = initArguments, arg_num = 0\<rparr> =
     Returned 0 \<lparr>input = initArguments\<lparr>lock := 1\<rparr>, arg_num = 0\<rparr>
   \<and> argp_parse [(key_of CHR ''t'', Some ''3600s''), (ARGP_KEY_ARG, Some ''work'')]
     \<lparr>input = initArguments, arg_num = 0\<rparr> =
     Returned 0
       \<lparr>input = initArguments\<lparr>args0 := Some ''work'',
          lifetime_opt := \<lparr>lifetime = 3600, argProvided = 1\<rparr>\<rparr>, arg_num = 1\<rparr>
   \<and> atoi ''3600s'' = decimal ''3600''
   \<and> argp_parse [(key_of CHR ''t'', Some ''one hour''), (key_of CHR ''v'', None)]
     \<lparr>input = initArguments, arg_num = 0\<rparr> = Error_exit
   \<and> argp_parse [(ARGP_KEY_ARG, Some ''work''), (ARGP_KEY_ARG, Some ''home'')]
     \<lparr>input = initArguments, arg_num = 0\<rparr> = Usage_exit
   \<and> argp_parse [(key_of CHR ''R'', None), (ARGP_KEY_ARG, Some ''work''),
        (ARGP_KEY_ARG, Some ''home'')]
     \<lparr>input = initArguments, arg_num = 0\<rparr> = Usage_exit
   \<and> argp_parse [] \<lparr>input = initArguments, arg_num = 0\<rparr> = Usage_exit
   \<and> argp_parse [(key_of CHR ''v'', None)] \<lparr>input = initArguments, arg_num = 0\<rparr> = Usage_exit"
proof -
  let ?init = "\<lparr>input = initArguments, arg_num = 0\<rparr>"
  let ?evs = "[(key_of CHR ''v'', None :: cstr)]"
  note t = oidc_add_arguments [where evs = ?evs and a = "''one hour''" and ds = "''3600''"
      and rest = "''s''" and state = ?init]
  have h1: "list_all supplied ?evs" by code_simp
  have h2: "\<forall>a. (key_of CHR ''t'', Some a) \<in> set ?evs \<longrightarrow> isdigit (str0 a)" by simp
  have c: "\<not> (length (positional ?evs) = 1
      \<or> (positional ?evs = [] \<and> (\<exists>e\<in>set ?evs. fst e \<in> set standalone_keys)))"
    by code_simp
  have d: "''3600'' \<noteq> [] \<and> (\<forall>c\<in>set ''3600''. isdigit c) \<and> \<not> isdigit (str0 ''s'')
      \<and> decimal ''3600'' < 2 ^ 31"
    by (simp add: isdigit_def str0_def decimal_def)
  have n: "\<not> isdigit (str0 ''one hour'')" by code_simp
  from t h1 h2 have "if length (positional ?evs) = 1
      \<or> (positional ?evs = [] \<and> (\<exists>e\<in>set ?evs. fst e \<in> set standalone_keys))
    then \<exists>state'. argp_parse ?evs ?init = Returned 0 state'
                \<and> arg_num state' = length (positional ?evs)
                \<and> args0 (input state') =
                    (case positional ?evs of [] \<Rightarrow> None | e # es \<Rightarrow> snd e)
    else argp_parse ?evs ?init = Usage_exit"
    by blast
  with c have u: "argp_parse ?evs ?init = Usage_exit" by (simp only: if_False)
  from t d have a: "atoi (''3600'' @ ''s'') = decimal ''3600''" by blast
  from t n have e: "argp_parse ((key_of CHR ''t'', Some ''one hour'') # ?evs) ?init = Error_exit"
    by blast
  have rest: "argp_parse [(key_of CHR ''x'', None)] ?init =
     Returned 0 \<lparr>input = initArguments\<lparr>lock := 1\<rparr>, arg_num = 0\<rparr>
   \<and> argp_parse [(key_of CHR ''t'', Some ''3600s''), (ARGP_KEY_ARG, Some ''work'')] ?init =
     Returned 0
       \<lparr>input = initArguments\<lparr>args0 := Some ''work'',
          lifetime_opt := \<lparr>lifetime = 3600, argProvided = 1\<rparr>\<rparr>, arg_num = 1\<rparr>
   \<and> argp_parse [(ARGP_KEY_ARG, Some ''work''), (ARGP_KEY_ARG, Some ''home'')] ?init = Usage_exit
   \<and> argp_parse [(key_of CHR ''R'', None), (ARGP_KEY_ARG, Some ''work''),
        (ARGP_KEY_ARG, Some ''home'')] ?init = Usage_exit
   \<and> argp_parse [] ?init = Usage_exit"
    by code_simp
  show ?thesis using rest u a e by simp
qed

end
